(* ===== verification/Prelude.thy ===== *)
theory Prelude
  imports Main "HOL-Library.Word" "HOL-Library.Sublist"
begin

text \<open>
  Shared vocabulary of the development: Rust's \<open>u32\<close> as \<open>32 word\<close>, byte strings, the
  \<open>str\<close> helpers the sources call (\<open>ends_with\<close>, \<open>rsplit_once\<close>), the decimal
  rendering of \<open>format!("{}", n)\<close> with its parser and round trip, and the lemma
  collections the component theories add to.
\<close>

type_synonym u32 = "32 word"
type_synonym byte = "8 word"
type_synonym bytes = "byte list"

text \<open>
  A \<open>std::path::Path\<close> as the list of its normal components (after the root, if any);
  \<open>dir.join(name)\<close> appends one component.
\<close>

type_synonym path = "string list"

lemma unat_u32_less [simp]: "unat (x :: u32) < 4294967296"
  using unsigned_less [of x] by simp

lemma unat_u32_add:
  fixes x y :: u32
  assumes "unat x + unat y < 4294967296"
  shows "unat (x + y) = unat x + unat y"
  using assms by (simp add: unat_add_lem [THEN iffD1])

lemma unat_u32_mult:
  fixes x y :: u32
  assumes "unat x * unat y < 4294967296"
  shows "unat (x * y) = unat x * unat y"
  using assms by (simp add: unat_mult_lem [THEN iffD1])

named_theorems dims_simps "width and height of the results of image operations"
named_theorems names_simps "facts about the archive entry names the writers produce"

section \<open>\<open>str::ends_with\<close>\<close>

definition ends_with :: "string \<Rightarrow> string \<Rightarrow> bool" where
  "ends_with s suf \<longleftrightarrow> length suf \<le> length s \<and> drop (length s - length suf) s = suf"

lemma ends_with_suffix: "ends_with s suf \<longleftrightarrow> suffix suf s"
proof
  assume "ends_with s suf"
  then have "s = take (length s - length suf) s @ suf"
    unfolding ends_with_def by (metis append_take_drop_id)
  then show "suffix suf s" unfolding suffix_def by blast
next
  assume "suffix suf s"
  then obtain zs where "s = zs @ suf" unfolding suffix_def by blast
  then show "ends_with s suf" by (simp add: ends_with_def)
qed

lemma ends_with_append [simp]: "ends_with (xs @ suf) suf"
  by (simp add: ends_with_def)

section \<open>\<open>str::rsplit_once\<close>\<close>

text \<open>
  \<open>s.rsplit_once(c)\<close> splits at the last occurrence of \<open>c\<close>: \<open>None\<close> when \<open>c\<close> does not
  occur, otherwise the text before and after it.
\<close>

definition rsplit_once :: "char \<Rightarrow> string \<Rightarrow> (string \<times> string) option" where
  "rsplit_once c s =
     (if c \<in> set s
      then Some (rev (tl (dropWhile (\<lambda>x. x \<noteq> c) (rev s))),
                 rev (takeWhile (\<lambda>x. x \<noteq> c) (rev s)))
      else None)"

lemma rsplit_once_None [simp]: "rsplit_once c s = None \<longleftrightarrow> c \<notin> set s"
  by (simp add: rsplit_once_def)

lemma rsplit_once_Some:
  assumes "rsplit_once c s = Some (a, b)"
  shows "s = a @ c # b \<and> c \<notin> set b"
proof -
  have c: "c \<in> set (rev s)" and
    a: "a = rev (tl (dropWhile (\<lambda>x. x \<noteq> c) (rev s)))" and
    b: "b = rev (takeWhile (\<lambda>x. x \<noteq> c) (rev s))"
    using assms by (auto simp: rsplit_once_def split: if_splits)
  from c have dw: "dropWhile (\<lambda>x. x \<noteq> c) (rev s) = c # tl (dropWhile (\<lambda>x. x \<noteq> c) (rev s))"
    by (metis (mono_tags, lifting) dropWhile_eq_Nil_conv hd_dropWhile list.collapse)
  have "rev s = takeWhile (\<lambda>x. x \<noteq> c) (rev s) @ dropWhile (\<lambda>x. x \<noteq> c) (rev s)"
    by simp
  then have "rev s = rev b @ c # rev a"
    using a b dw by simp
  then have "s = a @ c # b"
    by (metis rev_append rev_rev_ident rev.simps(2) append.assoc append_Cons append_Nil)
  moreover have "c \<notin> set b"
    using b by (auto dest: set_takeWhileD)
  ultimately show ?thesis by blast
qed

lemma rsplit_once_append:
  assumes "c \<notin> set b"
  shows "rsplit_once c (a @ c # b) = Some (a, b)"
proof -
  have tw: "takeWhile (\<lambda>x. x \<noteq> c) (rev b @ c # rev a) = rev b"
    using assms by (subst takeWhile_append2) auto
  have dw: "dropWhile (\<lambda>x. x \<noteq> c) (rev b @ c # rev a) = c # rev a"
    using assms by (subst dropWhile_append2) auto
  show ?thesis
    by (simp add: rsplit_once_def tw dw)
qed

section \<open>Decimal rendering of \<open>format!("{}", n)\<close>\<close>

definition digit_char :: "nat \<Rightarrow> char" where
  "digit_char d = char_of (48 + d)"

fun string_of_nat :: "nat \<Rightarrow> string" where
  "string_of_nat n =
     (if n < 10 then [digit_char n] else string_of_nat (n div 10) @ [digit_char (n mod 10)])"

declare string_of_nat.simps [simp del]

definition dec_digit :: "char \<Rightarrow> bool" where
  "dec_digit ch \<longleftrightarrow> 48 \<le> (of_char ch :: nat) \<and> (of_char ch :: nat) < 58"

definition digit_val :: "char \<Rightarrow> nat" where
  "digit_val ch = (of_char ch :: nat) - 48"

definition nat_of_string :: "string \<Rightarrow> nat" where
  "nat_of_string s = foldl (\<lambda>acc ch. 10 * acc + digit_val ch) 0 s"

lemma digit_char_props [simp]:
  "d < 10 \<Longrightarrow> dec_digit (digit_char d)"
  "d < 10 \<Longrightarrow> digit_val (digit_char d) = d"
  by (simp_all add: digit_char_def dec_digit_def digit_val_def of_char_of)

lemma string_of_nat_ne [simp]: "string_of_nat n \<noteq> []"
  by (subst string_of_nat.simps) simp

lemma string_of_nat_digits: "list_all dec_digit (string_of_nat n)"
proof (induction n rule: string_of_nat.induct)
  case (1 n)
  then show ?case by (subst string_of_nat.simps) auto
qed

lemma nat_of_string_snoc: "nat_of_string (s @ [ch]) = 10 * nat_of_string s + digit_val ch"
  by (simp add: nat_of_string_def)

text \<open>Print then parse is the identity: the decimal rendering loses nothing.\<close>

lemma nat_of_string_of_nat [simp]: "nat_of_string (string_of_nat n) = n"
proof (induction n rule: string_of_nat.induct)
  case (1 n)
  show ?case
  proof (cases "n < 10")
    case True
    then show ?thesis
      by (subst string_of_nat.simps) (simp add: nat_of_string_def)
  next
    case False
    with "1.IH" show ?thesis
      by (subst string_of_nat.simps) (simp add: nat_of_string_snoc)
  qed
qed

lemma string_of_nat_inj [simp]: "string_of_nat m = string_of_nat n \<longleftrightarrow> m = n"
  by (metis nat_of_string_of_nat)

text \<open>The ten digits, for evaluating names at concrete numbers.\<close>

lemma string_of_nat_digit [names_simps]:
  "string_of_nat 0 = ''0''" "string_of_nat 1 = ''1''" "string_of_nat (Suc 0) = ''1''"
  "string_of_nat 2 = ''2''"
  "string_of_nat 3 = ''3''" "string_of_nat 4 = ''4''" "string_of_nat 5 = ''5''"
  "string_of_nat 6 = ''6''" "string_of_nat 7 = ''7''" "string_of_nat 8 = ''8''"
  "string_of_nat 9 = ''9''"
  by (subst string_of_nat.simps; code_simp)+

end
