(* ===== verification/Image_Model.thy ===== *)
theory Image_Model
  imports Prelude
begin

text \<open>
  The image library surface the engine calls (crate \<open>image\<close>): a decoded
  \<open>DynamicImage\<close> as a record of its \<open>u32\<close> dimensions and an RGBA8 pixel function,
  \<open>DynamicImage::new_rgba8\<close>, \<open>crop_imm\<close>, \<open>copy_from\<close>, the raw RGBA8 buffer handed to
  the encoder, and the two interfaces the engine treats as external: a resampler
  (\<open>resize_exact\<close> with Lanczos3, \<open>thumbnail_exact\<close>) and the lossless WebP encoder.
  The Image Codec Adapter of the engine, \<open>ArchiveCleaner::encode_webp\<close>
  (src/src/archive_cleaner.rs), is the last definition of the theory.
\<close>

section \<open>Pixels and images\<close>

type_synonym rgba = "byte \<times> byte \<times> byte \<times> byte"

definition blank :: rgba where
  "blank = (0, 0, 0, 0)"

text \<open>
  Every image the engine touches is converted to RGBA8 before use (\<open>to_rgba8\<close> in
  \<open>combine_images\<close> and in \<open>encode_webp\<close>), so the model keeps one pixel type and
  \<open>to_rgba8\<close> is the identity on it. Pixel \<open>(x, y)\<close> is column \<open>x\<close>, row \<open>y\<close>.
\<close>

record image =
  img_width :: u32
  img_height :: u32
  img_pixels :: "nat \<Rightarrow> nat \<Rightarrow> rgba"

definition get_pixel :: "image \<Rightarrow> nat \<Rightarrow> nat \<Rightarrow> rgba" where
  "get_pixel i x y = img_pixels i x y"

definition in_bounds :: "image \<Rightarrow> nat \<Rightarrow> nat \<Rightarrow> bool" where
  "in_bounds i x y \<longleftrightarrow> x < unat (img_width i) \<and> y < unat (img_height i)"

text \<open>\<open>DynamicImage::new_rgba8(w, h)\<close>: a transparent black canvas.\<close>

definition new_rgba8 :: "u32 \<Rightarrow> u32 \<Rightarrow> image" where
  "new_rgba8 w h = \<lparr>img_width = w, img_height = h, img_pixels = (\<lambda>_ _. blank)\<rparr>"

section \<open>\<open>crop_imm\<close>\<close>

text \<open>
  \<open>imageops::crop_imm\<close> first clamps the rectangle to the image
  (\<open>crop_dimms\<close>: \<open>x := min x iw\<close>, \<open>y := min y ih\<close>, \<open>w := min w (iw - x)\<close>,
  \<open>h := min h (ih - y)\<close>, all \<open>u32\<close>), then \<open>to_image\<close> copies the sub-image.
\<close>

definition crop_imm :: "image \<Rightarrow> u32 \<Rightarrow> u32 \<Rightarrow> u32 \<Rightarrow> u32 \<Rightarrow> image" where
  "crop_imm i x y w h =
     (let x' = min x (img_width i); y' = min y (img_height i);
          h' = min h (img_height i - y'); w' = min w (img_width i - x')
      in \<lparr>img_width = w', img_height = h',
          img_pixels = (\<lambda>a b. if a < unat w' \<and> b < unat h'
                               then img_pixels i (a + unat x') (b + unat y') else blank)\<rparr>)"

lemma crop_imm_dims [dims_simps]:
  assumes "x \<le> img_width i" "y \<le> img_height i"
  shows "img_width (crop_imm i x y w h) = min w (img_width i - x)"
    and "img_height (crop_imm i x y w h) = min h (img_height i - y)"
  using assms by (simp_all add: crop_imm_def Let_def min_absorb1)

lemma crop_imm_pixel:
  assumes "x \<le> img_width i" "y \<le> img_height i"
    and "in_bounds (crop_imm i x y w h) a b"
  shows "get_pixel (crop_imm i x y w h) a b = get_pixel i (a + unat x) (b + unat y)"
  using assms by (simp add: crop_imm_def Let_def in_bounds_def get_pixel_def min_absorb1)

section \<open>\<open>copy_from\<close>\<close>

text \<open>
  \<open>GenericImage::copy_from(other, x, y)\<close> of the image crate first tests
  \<open>self.width() < other.width() + x || self.height() < other.height() + y\<close>, in \<open>u32\<close>
  (wrapping in a release build), and returns a dimension-mismatch error when it holds.
  Otherwise it runs \<open>for k in 0..other.height() { for i in 0..other.width() {
  self.put_pixel(i + x, k + y, other.get_pixel(i, k)) } }\<close>, again in \<open>u32\<close>, and
  \<open>put_pixel\<close> panics on an index outside the image. The outcome of the loops is
  \<open>copy_from\<close> in closed form: a pixel is written out of bounds exactly when \<open>other\<close>
  is not empty and does not fit over the naturals (\<open>copy_from_out_of_bounds_iff\<close>
  below); otherwise every pixel lands at its unwrapped place.
\<close>

datatype copy_result = Copied image | DimensionMismatch | IndexOutOfBounds

definition copy_fits :: "image \<Rightarrow> image \<Rightarrow> u32 \<Rightarrow> u32 \<Rightarrow> bool" where
  "copy_fits dst src x y \<longleftrightarrow>
     unat (img_width src) + unat x \<le> unat (img_width dst)
     \<and> unat (img_height src) + unat y \<le> unat (img_height dst)"

definition copy_from :: "image \<Rightarrow> image \<Rightarrow> u32 \<Rightarrow> u32 \<Rightarrow> copy_result" where
  "copy_from dst src x y =
     (if img_width dst < img_width src + x \<or> img_height dst < img_height src + y
      then DimensionMismatch
      else if copy_fits dst src x y \<or> img_width src = 0 \<or> img_height src = 0
      then Copied (dst\<lparr>img_pixels := (\<lambda>a b.
             if unat x \<le> a \<and> a < unat x + unat (img_width src)
                \<and> unat y \<le> b \<and> b < unat y + unat (img_height src)
             then img_pixels src (a - unat x) (b - unat y)
             else img_pixels dst a b)\<rparr>)
      else IndexOutOfBounds)"

section \<open>Interfaces: resampling and WebP encoding\<close>

text \<open>
  Resampling filters (Lanczos3 in \<open>resize_exact\<close>, the box filter of
  \<open>thumbnail_exact\<close>) compute pixel values the engine never inspects; what the engine
  relies on is the size of the result. A resampler is therefore a parameter, and its
  contract is that it returns an image of exactly the requested size.
\<close>

type_synonym resampler = "u32 \<Rightarrow> u32 \<Rightarrow> image \<Rightarrow> image"

definition resampler_ok :: "resampler \<Rightarrow> bool" where
  "resampler_ok r \<longleftrightarrow> (\<forall>w h i. img_width (r w h i) = w \<and> img_height (r w h i) = h)"

text \<open>A concrete resampler (nearest neighbour), used to instantiate the contract.\<close>

definition nearest_resize :: resampler where
  "nearest_resize w h i =
     \<lparr>img_width = w, img_height = h,
      img_pixels = (\<lambda>a b. img_pixels i (a * unat (img_width i) div unat w)
                                        (b * unat (img_height i) div unat h))\<rparr>"

lemma nearest_resize_ok: "resampler_ok nearest_resize"
  by (simp add: resampler_ok_def nearest_resize_def)

text \<open>
  The WebP encoder (\<open>WebPEncoder::new_lossless(..).encode(buf, w, h, Rgba8)\<close>) takes
  the raw buffer and the dimensions and returns the encoded bytes or an error, whose
  message \<open>encode_webp\<close> keeps.
\<close>

type_synonym webp_encoder = "bytes \<Rightarrow> u32 \<Rightarrow> u32 \<Rightarrow> string + bytes"

definition rgba_bytes :: "rgba \<Rightarrow> bytes" where
  "rgba_bytes p = (case p of (r, g, b, a) \<Rightarrow> [r, g, b, a])"

lemma length_rgba_bytes [simp]: "length (rgba_bytes p) = 4"
  by (simp add: rgba_bytes_def split: prod.splits)

text \<open>\<open>to_rgba8().as_raw()\<close>: the pixels row by row, four bytes each.\<close>

definition as_raw :: "image \<Rightarrow> bytes" where
  "as_raw i =
     concat (map (\<lambda>y. concat (map (\<lambda>x. rgba_bytes (img_pixels i x y)) [0..<unat (img_width i)]))
                 [0..<unat (img_height i)])"

lemma length_as_raw:
  "length (as_raw i) = 4 * unat (img_width i) * unat (img_height i)"
proof -
  have row: "\<And>y. length (concat (map (\<lambda>x. rgba_bytes (img_pixels i x y)) [0..<unat (img_width i)]))
                 = 4 * unat (img_width i)"
    by (simp add: length_concat comp_def sum_list_triv)
  show ?thesis
    by (simp add: as_raw_def length_concat comp_def row sum_list_triv)
qed

section \<open>Image Codec Adapter: \<open>encode_webp\<close>\<close>

text \<open>
  \<open>ArchiveCleaner::encode_webp\<close>: convert to RGBA8, encode the raw buffer
  losslessly; an encoder error becomes \<open>Err(format!("{e}"))\<close>.
\<close>

definition encode_webp :: "webp_encoder \<Rightarrow> image \<Rightarrow> string + bytes" where
  "encode_webp enc i =
     (case enc (as_raw i) (img_width i) (img_height i) of
        Inl e \<Rightarrow> Inl e
      | Inr webp_data \<Rightarrow> Inr webp_data)"

lemma encode_webp_eq: "encode_webp enc i = enc (as_raw i) (img_width i) (img_height i)"
  by (simp add: encode_webp_def split: sum.split)

section \<open>Lemmas on \<open>copy_from\<close>\<close>

text \<open>The closed form agrees with the loops: once the \<open>u32\<close> test has passed, some pixel
  \<open>(i, k)\<close> of \<open>other\<close> is put at a wrapped index outside the image exactly when
  \<open>copy_from\<close> answers \<open>IndexOutOfBounds\<close>.\<close>

lemma wrap_index_oob:
  fixes w x :: u32
  assumes "unat w < n + unat x" and "0 < n"
  shows "\<exists>i < n. w \<le> of_nat i + x"
proof (cases "unat x \<le> unat w")
  case True
  have xw: "x \<le> w" using True by (simp add: word_le_nat_alt)
  have "unat w - unat x < n" using assms(1) True by linarith
  moreover have "of_nat (unat w - unat x) + x = w"
    using xw by (simp add: unat_sub [symmetric])
  ultimately show ?thesis by (intro exI [of _ "unat w - unat x"]) simp
next
  case False
  then have "w \<le> of_nat 0 + x" by (simp add: word_le_nat_alt)
  then show ?thesis using assms(2) by blast
qed

lemma wrap_index_in:
  fixes w x :: u32
  assumes "n + unat x \<le> unat w" and "i < n"
  shows "of_nat i + x < w"
proof -
  have b: "unat w < 4294967296" by (rule unat_u32_less)
  have "i < 4294967296" using assms b by linarith
  then have i: "unat (of_nat i :: u32) = i" by (simp add: unat_of_nat)
  have "unat (of_nat i + x) = unat (of_nat i :: u32) + unat x"
    by (rule unat_u32_add) (use assms b i in linarith)
  then have "unat (of_nat i + x) = i + unat x" using i by simp
  then show ?thesis using assms by (simp add: word_less_nat_alt)
qed

lemma copy_from_out_of_bounds_iff:
  "copy_from dst src x y = IndexOutOfBounds \<longleftrightarrow>
     \<not> (img_width dst < img_width src + x \<or> img_height dst < img_height src + y)
     \<and> (\<exists>k < unat (img_height src). \<exists>i < unat (img_width src).
          img_width dst \<le> of_nat i + x \<or> img_height dst \<le> of_nat k + y)"
  (is "?l \<longleftrightarrow> ?c \<and> ?e")
proof
  assume ?l
  then have c: ?c and nf: "\<not> copy_fits dst src x y"
    and w0: "0 < unat (img_width src)" and h0: "0 < unat (img_height src)"
    by (auto simp: copy_from_def unat_gt_0 split: if_splits)
  show "?c \<and> ?e"
  proof (cases "unat (img_width dst) < unat (img_width src) + unat x")
    case True
    then obtain i where "i < unat (img_width src)" "img_width dst \<le> of_nat i + x"
      using wrap_index_oob [OF True w0] by blast
    then show ?thesis using c h0 by blast
  next
    case False
    then have "unat (img_height dst) < unat (img_height src) + unat y"
      using nf by (simp add: copy_fits_def)
    then obtain k where "k < unat (img_height src)" "img_height dst \<le> of_nat k + y"
      using wrap_index_oob h0 by blast
    then show ?thesis using c w0 by blast
  qed
next
  assume r: "?c \<and> ?e"
  then obtain k i where k: "k < unat (img_height src)" and i: "i < unat (img_width src)"
    and o: "img_width dst \<le> of_nat i + x \<or> img_height dst \<le> of_nat k + y" by blast
  have "\<not> copy_fits dst src x y"
  proof
    assume f: "copy_fits dst src x y"
    have "of_nat i + x < img_width dst" using f i by (intro wrap_index_in) (simp_all add: copy_fits_def)
    moreover have "of_nat k + y < img_height dst" using f k by (intro wrap_index_in) (simp_all add: copy_fits_def)
    ultimately show False using o by (simp add: not_le [symmetric])
  qed
  moreover have "img_width src \<noteq> 0" "img_height src \<noteq> 0" using i k by auto
  ultimately show ?l using r by (simp add: copy_from_def)
qed

lemma copy_from_fits:
  assumes "copy_fits dst src x y"
  shows "copy_from dst src x y = Copied (dst\<lparr>img_pixels := (\<lambda>a b.
             if unat x \<le> a \<and> a < unat x + unat (img_width src)
                \<and> unat y \<le> b \<and> b < unat y + unat (img_height src)
             then img_pixels src (a - unat x) (b - unat y)
             else img_pixels dst a b)\<rparr>)"
proof -
  have bw: "unat (img_width dst) < 4294967296" and bh: "unat (img_height dst) < 4294967296"
    by (rule unat_u32_less)+
  have "unat (img_width src + x) = unat (img_width src) + unat x"
    by (rule unat_u32_add) (use assms bw in \<open>unfold copy_fits_def, linarith\<close>)
  moreover have "unat (img_height src + y) = unat (img_height src) + unat y"
    by (rule unat_u32_add) (use assms bh in \<open>unfold copy_fits_def, linarith\<close>)
  ultimately have "\<not> (img_width dst < img_width src + x \<or> img_height dst < img_height src + y)"
    using assms by (simp add: copy_fits_def word_less_nat_alt)
  then show ?thesis using assms by (simp add: copy_from_def)
qed

lemma copy_from_Copied:
  assumes "copy_from dst src x y = Copied c"
  shows "img_width c = img_width dst \<and> img_height c = img_height dst
         \<and> (copy_fits dst src x y \<or> img_width src = 0 \<or> img_height src = 0)"
  using assms by (auto simp: copy_from_def split: if_splits)

end
