(* ===== verification/Classifier.thy ===== *)
theory Classifier
  imports Image_Model
begin

text \<open>
  Layout Classifier (src/src/archive_cleaner.rs): the \<open>ArchiveCleaner\<close> state, its
  constructor, the oversize test \<open>image_meets_criteria\<close> and the scan
  \<open>should_write_archive\<close>, which writes the field \<open>archive_type\<close> once per sampled image.
  The arithmetic is that of \<open>u32\<close>: \<open>3 * w\<close> wraps. Beside the code model stands the
  abstract first-match classifier over the naturals (\<open>classify\<close>); the refinement lemma
  says the code computes it whenever \<open>3 * w\<close> does not wrap.
\<close>

section \<open>State\<close>

datatype archive_type = Manhwa | Manga

record image_info =
  width :: u32
  height :: u32

record archive_cleaner =
  archive_type :: archive_type
  min_image_size :: image_info
  archive_path :: path

text \<open>\<open>pub const IMAGE_SIZE: (u32, u32) = (1024, 1024)\<close> (src/src/file_handler.rs).\<close>

definition IMAGE_SIZE :: "u32 \<times> u32" where
  "IMAGE_SIZE = (1024, 1024)"

definition ArchiveCleaner_new :: "path \<Rightarrow> archive_cleaner" where
  "ArchiveCleaner_new p =
     \<lparr>archive_type = Manga,
      min_image_size = \<lparr>width = fst IMAGE_SIZE, height = snd IMAGE_SIZE\<rparr>,
      archive_path = p\<rparr>"

section \<open>Operations\<close>

definition image_meets_criteria :: "archive_cleaner \<Rightarrow> u32 \<Rightarrow> u32 \<Rightarrow> bool" where
  "image_meets_criteria c w h \<longleftrightarrow>
     (3 * w \<le> h \<and> height (min_image_size c) < h)
     \<or> (h < 3 * w \<and> width (min_image_size c) < w \<and> height (min_image_size c) < h)"

definition shape_of :: "u32 \<Rightarrow> u32 \<Rightarrow> archive_type" where
  "shape_of w h = (if 3 * w \<le> h then Manhwa else Manga)"

text \<open>
  The loop body of \<open>should_write_archive\<close> over \<open>images.iter().take(max)\<close>: set
  \<open>self.archive_type\<close> from the image's shape, then return \<open>true\<close> if the image meets
  the criteria. The field keeps the value of the last image looked at.
\<close>

fun should_write_loop :: "archive_cleaner \<Rightarrow> image list \<Rightarrow> bool \<times> archive_cleaner" where
  "should_write_loop c [] = (False, c)"
| "should_write_loop c (img # imgs) =
     (let w = img_width img; h = img_height img;
          c' = c\<lparr>archive_type := shape_of w h\<rparr>
      in if image_meets_criteria c' w h then (True, c') else should_write_loop c' imgs)"

definition should_write_archive :: "archive_cleaner \<Rightarrow> image list \<Rightarrow> nat \<Rightarrow> bool \<times> archive_cleaner" where
  "should_write_archive c images max_images_to_check = should_write_loop c (take max_images_to_check images)"

section \<open>Abstract specification: first match over the naturals\<close>

text \<open>
  The contract of the classifier (spec, section 4.2), over exact arithmetic: an image of
  size \<open>(w, h)\<close> is a strip when \<open>h \<ge> 3 w\<close>; a strip is oversized when \<open>h > th\<close>, a page
  when \<open>w > tw \<and> h > th\<close>; the decision is the shape of the first oversized image
  among the first \<open>max\<close>, or none.
\<close>

definition strip_shape :: "nat \<Rightarrow> nat \<Rightarrow> bool" where
  "strip_shape w h \<longleftrightarrow> 3 * w \<le> h"

definition oversized :: "nat \<times> nat \<Rightarrow> nat \<times> nat \<Rightarrow> bool" where
  "oversized t d \<longleftrightarrow>
     (if strip_shape (fst d) (snd d) then snd t < snd d else fst t < fst d \<and> snd t < snd d)"

definition layout_of :: "nat \<times> nat \<Rightarrow> archive_type" where
  "layout_of d = (if strip_shape (fst d) (snd d) then Manhwa else Manga)"

fun first_match :: "nat \<times> nat \<Rightarrow> (nat \<times> nat) list \<Rightarrow> archive_type option" where
  "first_match t [] = None"
| "first_match t (d # ds) = (if oversized t d then Some (layout_of d) else first_match t ds)"

definition classify :: "nat \<times> nat \<Rightarrow> nat \<Rightarrow> (nat \<times> nat) list \<Rightarrow> archive_type option" where
  "classify t max_images_to_check ds = first_match t (take max_images_to_check ds)"

definition dims :: "image \<Rightarrow> nat \<times> nat" where
  "dims i = (unat (img_width i), unat (img_height i))"

definition threshold :: "archive_cleaner \<Rightarrow> nat \<times> nat" where
  "threshold c = (unat (width (min_image_size c)), unat (height (min_image_size c)))"

definition no_wrap :: "image \<Rightarrow> bool" where
  "no_wrap i \<longleftrightarrow> 3 * unat (img_width i) < 2 ^ 32"

section \<open>Lemmas\<close>

lemma unat_three_times:
  fixes w :: u32
  assumes "3 * unat w < 2 ^ 32"
  shows "unat (3 * w) = 3 * unat w"
proof -
  have "unat (3 :: u32) * unat w < 2 ^ LENGTH(32)"
    using assms by simp
  then show ?thesis
    by (subst unat_mult_lem [THEN iffD1]) simp_all
qed

lemma unat_three_times_mod:
  fixes w :: u32
  shows "unat (3 * w) = (3 * unat w) mod 2 ^ 32"
  by (simp add: unat_word_ariths)

lemma shape_of_refines:
  assumes "no_wrap i"
  shows "shape_of (img_width i) (img_height i) = layout_of (dims i)"
  using assms
  by (simp add: shape_of_def layout_of_def strip_shape_def dims_def no_wrap_def
                word_le_nat_alt unat_three_times)

lemma meets_criteria_refines:
  assumes "no_wrap i"
  shows "image_meets_criteria c (img_width i) (img_height i) \<longleftrightarrow> oversized (threshold c) (dims i)"
  using assms
  by (auto simp: image_meets_criteria_def oversized_def strip_shape_def dims_def no_wrap_def
                 threshold_def word_le_nat_alt word_less_nat_alt unat_three_times)

lemma image_meets_criteria_type [simp]:
  "image_meets_criteria (c\<lparr>archive_type := k\<rparr>) w h = image_meets_criteria c w h"
  by (simp add: image_meets_criteria_def)

lemma threshold_type [simp]: "threshold (c\<lparr>archive_type := k\<rparr>) = threshold c"
  by (simp add: threshold_def)

lemma should_write_loop_refines:
  assumes "list_all no_wrap imgs"
  shows "(case first_match (threshold c) (map dims imgs) of
            None \<Rightarrow> \<not> fst (should_write_loop c imgs)
          | Some k \<Rightarrow> fst (should_write_loop c imgs) \<and> archive_type (snd (should_write_loop c imgs)) = k)"
  using assms
proof (induction imgs arbitrary: c)
  case Nil
  then show ?case by simp
next
  case (Cons i imgs)
  then have nw: "no_wrap i" and rest: "list_all no_wrap imgs" by simp_all
  show ?case
  proof (cases "oversized (threshold c) (dims i)")
    case True
    then show ?thesis
      using nw by (simp add: Let_def meets_criteria_refines shape_of_refines)
  next
    case False
    let ?c' = "c\<lparr>archive_type := shape_of (img_width i) (img_height i)\<rparr>"
    have "\<not> image_meets_criteria ?c' (img_width i) (img_height i)"
      using False nw by (simp add: meets_criteria_refines)
    then have eq: "should_write_loop c (i # imgs) = should_write_loop ?c' imgs"
      by (simp add: Let_def)
    have "first_match (threshold c) (map dims (i # imgs)) = first_match (threshold ?c') (map dims imgs)"
      using False by simp
    then show ?thesis
      unfolding eq using Cons.IH [OF rest, of ?c'] by simp
  qed
qed

text \<open>A scan over images none of which meets the criteria answers \<open>false\<close>.\<close>

lemma should_write_loop_none:
  assumes "\<forall>i \<in> set imgs. \<not> image_meets_criteria c (img_width i) (img_height i)"
  shows "\<not> fst (should_write_loop c imgs)"
  using assms by (induction imgs arbitrary: c) (simp_all add: Let_def)

lemma meets_criteria_height:
  "image_meets_criteria c w h \<Longrightarrow> height (min_image_size c) < h"
  by (auto simp: image_meets_criteria_def)

text \<open>Fields other than \<open>archive_type\<close> are never written by the scan.\<close>

lemma should_write_loop_frame:
  "min_image_size (snd (should_write_loop c imgs)) = min_image_size c
   \<and> archive_path (snd (should_write_loop c imgs)) = archive_path c"
  by (induction imgs arbitrary: c) (simp_all add: Let_def)

lemma should_write_archive_height:
  assumes "\<forall>i \<in> set imgs. img_height i \<le> height (min_image_size c)"
  shows "\<not> fst (should_write_archive c imgs m)"
  unfolding should_write_archive_def
  using assms by (intro should_write_loop_none) (auto dest!: meets_criteria_height in_set_takeD)

section \<open>Properties\<close>

text \<open>
  C1 (refinement): when no sampled width makes \<open>3 * w\<close> wrap, \<open>should_write_archive\<close>
  computes the first-match classifier: it answers \<open>false\<close> exactly when no sampled image
  is oversized, and otherwise answers \<open>true\<close> with \<open>archive_type\<close> set to the shape of
  the first oversized image.
\<close>

theorem should_write_archive_refines:
  assumes "list_all no_wrap (take m imgs)"
  shows "(case classify (threshold c) m (map dims imgs) of
            None \<Rightarrow> \<not> fst (should_write_archive c imgs m)
          | Some k \<Rightarrow> fst (should_write_archive c imgs m)
                      \<and> archive_type (snd (should_write_archive c imgs m)) = k)"
  using should_write_loop_refines [OF assms, of c]
  unfolding should_write_archive_def classify_def take_map .

theorem should_write_archive_refines_witness:
  "list_all no_wrap (take 5 [new_rgba8 700 2200, new_rgba8 700 2300])
   \<and> classify (threshold (ArchiveCleaner_new [''a.cbz''])) 5
        (map dims [new_rgba8 700 2200, new_rgba8 700 2300]) = Some Manhwa
   \<and> fst (should_write_archive (ArchiveCleaner_new [''a.cbz''])
           [new_rgba8 700 2200, new_rgba8 700 2300] 5)
   \<and> archive_type (snd (should_write_archive (ArchiveCleaner_new [''a.cbz''])
           [new_rgba8 700 2200, new_rgba8 700 2300] 5)) = Manhwa"
proof -
  have h: "list_all no_wrap (take 5 [new_rgba8 700 2200, new_rgba8 700 2300])"
    by (simp add: no_wrap_def new_rgba8_def)
  have c: "classify (threshold (ArchiveCleaner_new [''a.cbz''])) 5
        (map dims [new_rgba8 700 2200, new_rgba8 700 2300]) = Some Manhwa"
    by (simp add: classify_def threshold_def ArchiveCleaner_new_def IMAGE_SIZE_def dims_def
                  new_rgba8_def oversized_def strip_shape_def layout_of_def)
  show ?thesis
    using h c should_write_archive_refines [OF h, of "ArchiveCleaner_new [''a.cbz'']"] by simp
qed

text \<open>
  C14 (bounds): \<open>3 * w\<close> is computed in \<open>u32\<close>, so \<open>shape_of\<close> decides the layout of a
  page differently from the same test over the naturals exactly when \<open>3 * w\<close> wraps and
  the wrapped product is at most the height: such a page is taken for a strip (e.g. a page
  1431655766 pixels wide and 2000 high, where \<open>3 * w\<close> wraps to 2).
\<close>

theorem shape_of_wraps:
  "shape_of w h \<noteq> layout_of (unat w, unat h)
   \<longleftrightarrow> 2 ^ 32 \<le> 3 * unat w \<and> (3 * unat w) mod 2 ^ 32 \<le> unat h"
proof -
  define t where "t = 3 * unat w"
  have hb: "unat h < 4294967296" using unat_u32_less [of h] by simp
  have m: "t mod 4294967296 \<le> t" by (rule mod_less_eq_dividend)
  have small: "t < 4294967296 \<Longrightarrow> t mod 4294967296 = t" by simp
  have "shape_of w h = (if t mod 4294967296 \<le> unat h then Manhwa else Manga)"
    by (simp add: shape_of_def word_le_nat_alt unat_three_times_mod t_def)
  moreover have "layout_of (unat w, unat h) = (if t \<le> unat h then Manhwa else Manga)"
    by (simp add: layout_of_def strip_shape_def t_def)
  ultimately show ?thesis
    unfolding t_def [symmetric] using hb m small
    by (cases "t < 4294967296") (auto simp: not_less)
qed

theorem shape_of_wraps_witness:
  "shape_of 1431655766 2000 \<noteq> layout_of (unat (1431655766 :: u32), unat (2000 :: u32))
   \<and> shape_of 1431655766 2000 = Manhwa"
proof -
  have "2 ^ 32 \<le> 3 * unat (1431655766 :: u32) \<and> (3 * unat (1431655766 :: u32)) mod 2 ^ 32 \<le> unat (2000 :: u32)"
    by simp
  then show ?thesis using shape_of_wraps [of "1431655766" "2000"] by (simp add: shape_of_def)
qed
end
