(* ===== verification/Filesystem.thy ===== *)
theory Filesystem
  imports Prelude
begin

text \<open>
  The effects the engine has: \<open>std::fs\<close> (open, create, rename) over a file system
  with inodes, the \<open>zip\<close> crate's reader and writer, Rust's \<open>Result\<close> with \<open>?\<close>
  and panics, and the path helper \<open>extract_file_info\<close> of src/src/file_handler.rs.
  A file is named by a path and held by an inode; an open handle keeps its inode, so a
  writer that outlives a rename of its file keeps writing to the renamed file, as on
  POSIX systems. I/O failures are decided by an oracle in the state (\<open>fs_fails\<close>),
  one decision per operation, so each \<open>?\<close> of the code is a branch of the model.
\<close>

section \<open>Errors and outcomes\<close>

datatype fs_op =
    Open path
  | Create path
  | ByIndex path nat
  | ReadEntry path nat
  | StartFile path string
  | WriteData path string
  | Finish path
  | Rename path path
  | Remove path
  | WriteFile path

datatype io_error =
    OsError fs_op
  | InvalidInput string
  | ZipErr string
  | OtherErr string
  | Wrapped string io_error

text \<open>\<open>Result<T, io::Error>\<close>, extended by the outcome of a panic (\<open>expect\<close>, \<open>unwrap\<close>).\<close>

datatype 'a outcome = Ok 'a | Err io_error | Panic string

section \<open>File system state\<close>

datatype compression_method = Stored | Deflated

record zip_entry =
  entry_name :: string
  entry_method :: compression_method
  entry_data :: bytes

text \<open>
  File contents: raw bytes, or a zip container with its entries and whether its central
  directory has been written (\<open>ZipWriter::finish\<close>); only a finished container opens
  with \<open>ZipArchive::new\<close>.
\<close>

datatype fobj = Blob bytes | ZipFile "zip_entry list" bool

record fs =
  fs_dir :: "path \<Rightarrow> nat option"
  fs_inode :: "nat \<Rightarrow> fobj option"
  fs_next :: nat
  fs_fails :: "fs_op \<Rightarrow> bool"

type_synonym 'a st = "fs \<Rightarrow> 'a outcome \<times> fs"

definition st_return :: "'a \<Rightarrow> 'a st" where
  "st_return a s = (Ok a, s)"

definition st_bind :: "'a st \<Rightarrow> ('a \<Rightarrow> 'b st) \<Rightarrow> 'b st" where
  "st_bind m f s =
     (case m s of
        (Ok a, s') \<Rightarrow> f a s'
      | (Err e, s') \<Rightarrow> (Err e, s')
      | (Panic msg, s') \<Rightarrow> (Panic msg, s'))"

definition st_map_err :: "(io_error \<Rightarrow> io_error) \<Rightarrow> 'a st \<Rightarrow> 'a st" where
  "st_map_err g m s = (case m s of (Err e, s') \<Rightarrow> (Err (g e), s') | r \<Rightarrow> r)"

lemma st_bind_return [simp]: "st_bind (st_return a) f = f a"
  by (rule ext) (simp add: st_bind_def st_return_def)

lemma st_bind_Ok: "m s = (Ok a, s') \<Longrightarrow> st_bind m f s = f a s'"
  by (simp add: st_bind_def)

lemma st_bind_Err: "m s = (Err e, s') \<Longrightarrow> st_bind m f s = (Err e, s')"
  by (simp add: st_bind_def)

lemma st_bind_Panic: "m s = (Panic msg, s') \<Longrightarrow> st_bind m f s = (Panic msg, s')"
  by (simp add: st_bind_def)

section \<open>\<open>std::fs\<close>\<close>

text \<open>\<open>File::open(p)\<close>: the inode of \<open>p\<close>, or an OS error.\<close>

definition file_open :: "path \<Rightarrow> nat st" where
  "file_open p s =
     (if fs_fails s (Open p) then (Err (OsError (Open p)), s)
      else case fs_dir s p of
             None \<Rightarrow> (Err (OsError (Open p)), s)
           | Some ino \<Rightarrow> (Ok ino, s))"

text \<open>\<open>File::create(p)\<close>: truncate the file at \<open>p\<close>, or make a new one.\<close>

definition file_create :: "path \<Rightarrow> nat st" where
  "file_create p s =
     (if fs_fails s (Create p) then (Err (OsError (Create p)), s)
      else case fs_dir s p of
             Some ino \<Rightarrow> (Ok ino, s\<lparr>fs_inode := (fs_inode s)(ino \<mapsto> Blob [])\<rparr>)
           | None \<Rightarrow> (Ok (fs_next s),
                      s\<lparr>fs_dir := (fs_dir s)(p \<mapsto> fs_next s),
                        fs_inode := (fs_inode s)(fs_next s \<mapsto> Blob []),
                        fs_next := Suc (fs_next s)\<rparr>))"

text \<open>\<open>fs::rename(from, to)\<close>: atomically rebind \<open>to\<close> to the inode of \<open>from\<close>.\<close>

definition fs_rename :: "path \<Rightarrow> path \<Rightarrow> unit st" where
  "fs_rename src dst s =
     (if fs_fails s (Rename src dst) then (Err (OsError (Rename src dst)), s)
      else case fs_dir s src of
             None \<Rightarrow> (Err (OsError (Rename src dst)), s)
           | Some ino \<Rightarrow> (Ok (), s\<lparr>fs_dir := ((fs_dir s)(src := None))(dst \<mapsto> ino)\<rparr>))"

text \<open>\<open>fs::remove_file(p)\<close>: unbind \<open>p\<close>.\<close>

definition fs_remove :: "path \<Rightarrow> unit st" where
  "fs_remove p s =
     (if fs_fails s (Remove p) then (Err (OsError (Remove p)), s)
      else case fs_dir s p of
             None \<Rightarrow> (Err (OsError (Remove p)), s)
           | Some _ \<Rightarrow> (Ok (), s\<lparr>fs_dir := (fs_dir s)(p := None)\<rparr>))"

text \<open>\<open>Path::exists\<close>: the path names a file.\<close>

definition path_exists :: "path \<Rightarrow> fs \<Rightarrow> bool" where
  "path_exists p s \<longleftrightarrow> fs_dir s p \<noteq> None"

text \<open>
  Writing a whole file as the image crate's \<open>save\<close> does: \<open>File::create(p)?\<close>, then the
  encoder's bytes, or its error (the file then stays empty).
\<close>

definition file_save :: "path \<Rightarrow> (string + bytes) \<Rightarrow> unit st" where
  "file_save p encoded s =
     (case file_create p s of
        (Ok ino, s1) \<Rightarrow>
          (case encoded of
             Inl e \<Rightarrow> (Err (OtherErr e), s1)
           | Inr data \<Rightarrow>
               if fs_fails s1 (WriteFile p) then (Err (OsError (WriteFile p)), s1)
               else (Ok (), s1\<lparr>fs_inode := (fs_inode s1)(ino \<mapsto> Blob data)\<rparr>))
      | (Err e, s1) \<Rightarrow> (Err e, s1)
      | (Panic m, s1) \<Rightarrow> (Panic m, s1))"

section \<open>The \<open>zip\<close> crate\<close>

subsection \<open>Reading\<close>

text \<open>\<open>ZipArchive::new(file)\<close>: the entries of a finished container, else an error.\<close>

definition zip_archive_new :: "nat \<Rightarrow> zip_entry list st" where
  "zip_archive_new ino s =
     (case fs_inode s ino of
        Some (ZipFile es True) \<Rightarrow> (Ok es, s)
      | _ \<Rightarrow> (Err (ZipErr ''invalid Zip archive''), s))"

subsection \<open>Writing\<close>

record zip_writer =
  zw_inode :: nat
  zw_path :: path
  zw_entries :: "zip_entry list"

definition ZipWriter_new :: "nat \<Rightarrow> path \<Rightarrow> zip_writer" where
  "ZipWriter_new ino p = \<lparr>zw_inode = ino, zw_path = p, zw_entries = []\<rparr>"

definition zw_store :: "zip_writer \<Rightarrow> fs \<Rightarrow> fs" where
  "zw_store w s = s\<lparr>fs_inode := (fs_inode s)(zw_inode w \<mapsto> ZipFile (zw_entries w) False)\<rparr>"

text \<open>
  \<open>start_file(name, options)\<close>: a name already in the container is refused
  (\<open>InvalidArchive("Duplicate filename")\<close>); otherwise the local header of a new,
  empty entry is written.
\<close>

definition start_file :: "string \<Rightarrow> compression_method \<Rightarrow> zip_writer \<Rightarrow> zip_writer st" where
  "start_file name m w s =
     (if name \<in> entry_name ` set (zw_entries w) then (Err (ZipErr ''Duplicate filename''), s)
      else if fs_fails s (StartFile (zw_path w) name) then (Err (OsError (StartFile (zw_path w) name)), s)
      else let w' = w\<lparr>zw_entries := zw_entries w @ [\<lparr>entry_name = name, entry_method = m, entry_data = []\<rparr>]\<rparr>
           in (Ok w', zw_store w' s))"

text \<open>\<open>write_all(data)\<close>: append to the entry last started.\<close>

definition write_all :: "bytes \<Rightarrow> zip_writer \<Rightarrow> zip_writer st" where
  "write_all data w s =
     (case rev (zw_entries w) of
        [] \<Rightarrow> (Err (OtherErr ''No file has been started''), s)
      | e # es \<Rightarrow>
          (if fs_fails s (WriteData (zw_path w) (entry_name e))
           then (Err (OsError (WriteData (zw_path w) (entry_name e))), s)
           else let w' = w\<lparr>zw_entries := rev es @ [e\<lparr>entry_data := entry_data e @ data\<rparr>]\<rparr>
                in (Ok w', zw_store w' s)))"

text \<open>
  \<open>ZipWriter\<close>'s \<open>Drop\<close>: write the central directory after the entries already in
  the file; an error is ignored, and the container then stays unfinished. Drop runs on
  every exit of the owner's scope: the normal one, each \<open>?\<close>, and panic unwinding.
\<close>

definition zip_contents :: "fobj option \<Rightarrow> zip_entry list" where
  "zip_contents f = (case f of Some (ZipFile es _) \<Rightarrow> es | _ \<Rightarrow> [])"

definition zip_drop :: "zip_writer \<Rightarrow> fs \<Rightarrow> fs" where
  "zip_drop w s =
     (if fs_fails s (Finish (zw_path w)) then s
      else s\<lparr>fs_inode := (fs_inode s)(zw_inode w \<mapsto>
                 ZipFile (zip_contents (fs_inode s (zw_inode w))) True)\<rparr>)"

text \<open>
  \<open>ZipWriter::finish(self)\<close>: write the central directory; the writer is consumed, so
  no drop follows.
\<close>

definition zip_finish :: "zip_writer \<Rightarrow> unit st" where
  "zip_finish w s =
     (if fs_fails s (Finish (zw_path w)) then (Err (OsError (Finish (zw_path w))), s)
      else (Ok (), s\<lparr>fs_inode := (fs_inode s)(zw_inode w \<mapsto>
                 ZipFile (zip_contents (fs_inode s (zw_inode w))) True)\<rparr>))"

section \<open>\<open>extract_file_info\<close>\<close>

text \<open>
  \<open>Path::file_name\<close> is the last component unless the path is empty (or a root) or ends
  in \<open>..\<close>; \<open>Path::parent\<close> drops the last component.
\<close>

definition path_file_name :: "path \<Rightarrow> string option" where
  "path_file_name p = (if p = [] \<or> last p = ''..'' then None else Some (last p))"

definition path_parent :: "path \<Rightarrow> path option" where
  "path_parent p = (if p = [] then None else Some (butlast p))"

definition extract_file_info :: "path \<Rightarrow> (string \<times> path) outcome" where
  "extract_file_info file_path =
     (case path_file_name file_path of
        None \<Rightarrow> Err (InvalidInput ''Invalid file path: no file name'')
      | Some filename \<Rightarrow>
          (let name = (case rsplit_once (CHR ''.'') filename of
                         Some (n, _) \<Rightarrow> n
                       | None \<Rightarrow> filename)
           in case path_parent file_path of
                None \<Rightarrow> Err (InvalidInput ''Invalid file path: no parent directory'')
              | Some parent_path \<Rightarrow> Ok (name, parent_path)))"

text \<open>
  The temporary and final container paths of both writers:
  \<open>dir_path.join(format!("{}.temp.cbz", name))\<close> and
  \<open>dir_path.join(format!("{}.cbz", name))\<close>.
\<close>

definition temp_archive_path :: "string \<Rightarrow> path \<Rightarrow> path" where
  "temp_archive_path name dir_path = dir_path @ [name @ ''.temp.cbz'']"

definition final_archive_path :: "string \<Rightarrow> path \<Rightarrow> path" where
  "final_archive_path name dir_path = dir_path @ [name @ ''.cbz'']"

end
