(* ===== verification/Archive_Writer.thy ===== *)
theory Archive_Writer
  imports Filesystem
begin

text \<open>
  Facts about the Archive Writer's operations shared by both transforms: what each
  \<open>zip\<close> and \<open>fs\<close> operation may change (frame conditions), their results when no
  operation fails, the entry names \<open><ordinal>.webp\<close> both writers use, and the paths:
  the temporary container never is the original, and the final container is the original
  exactly when the original's extension is \<open>cbz\<close>.
\<close>

section \<open>Frame conditions\<close>

definition fs_frame :: "nat \<Rightarrow> fs \<Rightarrow> fs \<Rightarrow> bool" where
  "fs_frame ino s s' \<longleftrightarrow>
     fs_dir s' = fs_dir s \<and> fs_next s' = fs_next s \<and> fs_fails s' = fs_fails s
     \<and> (\<forall>i. i \<noteq> ino \<longrightarrow> fs_inode s' i = fs_inode s i)"

lemma fs_frame_refl [simp]: "fs_frame ino s s"
  by (simp add: fs_frame_def)

lemma fs_frame_trans: "fs_frame ino s1 s2 \<Longrightarrow> fs_frame ino s2 s3 \<Longrightarrow> fs_frame ino s1 s3"
  by (simp add: fs_frame_def)

lemma fs_frame_store [simp]: "zw_inode w = ino \<Longrightarrow> fs_frame ino s (zw_store w s)"
  by (simp add: fs_frame_def zw_store_def)

lemma fs_frame_drop [simp]: "fs_frame (zw_inode w) s (zip_drop w s)"
  by (simp add: fs_frame_def zip_drop_def)

lemma zw_store_fails [simp]: "fs_fails (zw_store w s) = fs_fails s"
  by (simp add: zw_store_def)

lemma start_file_frame:
  "start_file name m w s = (r, s') \<Longrightarrow> fs_frame (zw_inode w) s s'"
  by (auto simp: start_file_def Let_def split: if_splits)

lemma start_file_writer:
  "start_file name m w s = (Ok w', s') \<Longrightarrow> zw_inode w' = zw_inode w \<and> zw_path w' = zw_path w"
  by (auto simp: start_file_def Let_def split: if_splits)

lemma write_all_frame:
  "write_all data w s = (r, s') \<Longrightarrow> fs_frame (zw_inode w) s s'"
  by (auto simp: write_all_def Let_def split: if_splits list.splits)

lemma write_all_writer:
  "write_all data w s = (Ok w', s') \<Longrightarrow> zw_inode w' = zw_inode w \<and> zw_path w' = zw_path w"
  by (auto simp: write_all_def Let_def split: if_splits list.splits)

lemmas writer_frames = start_file_frame write_all_frame start_file_writer write_all_writer

section \<open>Operations that do not fail\<close>

definition no_faults :: "fs \<Rightarrow> bool" where
  "no_faults s \<longleftrightarrow> fs_fails s = (\<lambda>_. False)"

fun is_finish :: "fs_op \<Rightarrow> bool" where
  "is_finish (Finish p) = True"
| "is_finish _ = False"

text \<open>Every operation succeeds, except possibly the writing of a central directory.\<close>

definition writes_succeed :: "fs \<Rightarrow> bool" where
  "writes_succeed s \<longleftrightarrow> (\<forall>op. fs_fails s op \<longrightarrow> is_finish op)"

lemma no_faults_writes_succeed: "no_faults s \<Longrightarrow> writes_succeed s"
  by (simp add: no_faults_def writes_succeed_def)

lemma writes_succeed_store [simp]: "writes_succeed (zw_store w s) = writes_succeed s"
  by (simp add: writes_succeed_def)

lemma writes_succeedD [simp]:
  "writes_succeed s \<Longrightarrow> \<not> fs_fails s (Create p)"
  "writes_succeed s \<Longrightarrow> \<not> fs_fails s (StartFile p n)"
  "writes_succeed s \<Longrightarrow> \<not> fs_fails s (WriteData p n)"
  "writes_succeed s \<Longrightarrow> \<not> fs_fails s (Rename p q)"
  "writes_succeed s \<Longrightarrow> \<not> fs_fails s (Open p)"
  "writes_succeed s \<Longrightarrow> \<not> fs_fails s (ByIndex p i)"
  "writes_succeed s \<Longrightarrow> \<not> fs_fails s (ReadEntry p i)"
  "writes_succeed s \<Longrightarrow> \<not> fs_fails s (Remove p)"
  "writes_succeed s \<Longrightarrow> \<not> fs_fails s (WriteFile p)"
  by (auto simp: writes_succeed_def)

definition synced :: "zip_writer \<Rightarrow> fs \<Rightarrow> bool" where
  "synced w s \<longleftrightarrow> zip_contents (fs_inode s (zw_inode w)) = zw_entries w"

lemma synced_store [simp]: "synced w (zw_store w s)"
  by (simp add: synced_def zw_store_def zip_contents_def)

text \<open>Starting a fresh entry and writing its data appends one stored entry.\<close>

definition new_entry :: "string \<Rightarrow> bytes \<Rightarrow> zip_entry" where
  "new_entry name data = \<lparr>entry_name = name, entry_method = Stored, entry_data = data\<rparr>"

lemma start_write_ok:
  assumes "writes_succeed s" and "name \<notin> entry_name ` set (zw_entries w)"
  shows "st_bind (start_file name Stored w) (\<lambda>w'. st_bind (write_all data w') k) s
         = k (w\<lparr>zw_entries := zw_entries w @ [new_entry name data]\<rparr>)
             (zw_store (w\<lparr>zw_entries := zw_entries w @ [new_entry name data]\<rparr>)
                (zw_store (w\<lparr>zw_entries := zw_entries w @ [new_entry name []]\<rparr>) s))"
  using assms
  by (simp add: st_bind_def start_file_def write_all_def new_entry_def Let_def)

lemma zw_store_store [simp]:
  "zw_inode w' = zw_inode w \<Longrightarrow> zw_store w' (zw_store w s) = zw_store w' s"
  by (simp add: zw_store_def)

lemma file_create_ok:
  assumes "writes_succeed s"
  shows "\<exists>ino. file_create p s = (Ok ino,
           s\<lparr>fs_dir := (fs_dir s)(p \<mapsto> ino), fs_inode := (fs_inode s)(ino \<mapsto> Blob []),
             fs_next := (if fs_dir s p = None then Suc (fs_next s) else fs_next s)\<rparr>)
           \<and> (fs_dir s p = None \<longrightarrow> ino = fs_next s) \<and> (fs_dir s p \<noteq> None \<longrightarrow> fs_dir s p = Some ino)"
  using assms by (cases "fs_dir s p") (auto simp: file_create_def fun_upd_idem)

lemma fs_rename_ok:
  assumes "writes_succeed s" and "fs_dir s src = Some ino"
  shows "fs_rename src dst s = (Ok (), s\<lparr>fs_dir := ((fs_dir s)(src := None))(dst \<mapsto> ino)\<rparr>)"
  using assms by (simp add: fs_rename_def)

lemma zip_drop_result:
  "fs_inode (zip_drop w s) (zw_inode w) =
     (if fs_fails s (Finish (zw_path w)) then fs_inode s (zw_inode w)
      else Some (ZipFile (zip_contents (fs_inode s (zw_inode w))) True))"
  "fs_dir (zip_drop w s) = fs_dir s"
  by (simp_all add: zip_drop_def)

lemma fs_rename_effect:
  assumes "fs_rename src dst s = (r, s')"
  shows "fs_inode s' = fs_inode s \<and>
         (s' = s \<or> (r = Ok () \<and> (\<exists>ino. fs_dir s' = ((fs_dir s)(src := None))(dst \<mapsto> ino))))"
  using assms by (auto simp: fs_rename_def split: if_splits option.splits)

lemma file_create_effect:
  assumes "file_create p s = (Ok ino, s')"
  shows "fs_dir s' = (fs_dir s)(p \<mapsto> ino) \<and> fs_inode s' = (fs_inode s)(ino \<mapsto> Blob [])
         \<and> fs_fails s' = fs_fails s
         \<and> (fs_dir s p = Some ino \<or> (fs_dir s p = None \<and> ino = fs_next s))"
  using assms by (auto simp: file_create_def fun_upd_idem split: if_splits option.splits)

lemma file_create_fail:
  assumes "file_create p s = (r, s')" and "\<And>ino. r \<noteq> Ok ino"
  shows "s' = s"
  using assms by (auto simp: file_create_def split: if_splits option.splits)

section \<open>Entry names\<close>

text \<open>\<open>format!("{}.webp", n)\<close>.\<close>

definition webp_name :: "nat \<Rightarrow> string" where
  "webp_name n = string_of_nat n @ ''.webp''"

lemma webp_name_inj [simp, names_simps]: "webp_name m = webp_name n \<longleftrightarrow> m = n"
  by (simp add: webp_name_def)

text \<open>Every name is digits followed by \<open>.webp\<close>: the shape \<open>^[0-9]+\.webp$\<close>.\<close>

definition webp_shaped :: "string \<Rightarrow> bool" where
  "webp_shaped s \<longleftrightarrow>
     ends_with s ''.webp'' \<and> length s > 5 \<and> list_all dec_digit (take (length s - 5) s)"

lemma webp_name_shaped [names_simps]: "webp_shaped (webp_name n)"
  using string_of_nat_digits [of n] string_of_nat_ne [of n]
  by (simp add: webp_shaped_def webp_name_def)

lemma distinct_webp_names [names_simps]: "distinct (map webp_name ns) = distinct ns"
  by (simp add: distinct_map inj_on_def)

section \<open>Paths\<close>

lemma extract_file_info_Ok:
  assumes "extract_file_info p = Ok (name, dir_path)"
  shows "p = dir_path @ [last p] \<and>
         (last p = name \<or> (\<exists>ext. last p = name @ CHR ''.'' # ext \<and> CHR ''.'' \<notin> set ext))"
proof -
  have p: "p \<noteq> []" "dir_path = butlast p"
    using assms by (auto simp: extract_file_info_def path_file_name_def path_parent_def Let_def
                         split: if_splits option.splits prod.splits)
  have "last p = name \<or> (\<exists>ext. rsplit_once CHR ''.'' (last p) = Some (name, ext))"
    using assms by (auto simp: extract_file_info_def path_file_name_def path_parent_def Let_def
                         split: if_splits option.splits)
  then show ?thesis
    using p rsplit_once_Some by (metis append_butlast_last_id)
qed

text \<open>The temporary container is never the original file.\<close>

lemma temp_not_original:
  assumes "extract_file_info p = Ok (name, dir_path)"
  shows "temp_archive_path name dir_path \<noteq> p"
proof
  assume eq: "temp_archive_path name dir_path = p"
  from extract_file_info_Ok [OF assms] have p: "p = dir_path @ [last p]"
    and fn: "last p = name \<or> (\<exists>ext. last p = name @ CHR ''.'' # ext \<and> CHR ''.'' \<notin> set ext)"
    by blast+
  have "last p = name @ ''.temp.cbz''"
    using eq by (simp add: temp_archive_path_def) (metis last_snoc)
  with fn show False by auto
qed

text \<open>The final container is the original file exactly when its extension is \<open>cbz\<close>.\<close>

lemma final_is_original_iff:
  assumes "extract_file_info p = Ok (name, dir_path)"
  shows "final_archive_path name dir_path = p \<longleftrightarrow> last p = name @ ''.cbz''"
proof -
  from extract_file_info_Ok [OF assms] have p: "p = dir_path @ [last p]" by blast
  show ?thesis
  proof
    assume "final_archive_path name dir_path = p"
    then show "last p = name @ ''.cbz''"
      by (simp add: final_archive_path_def) (metis last_snoc)
  next
    assume "last p = name @ ''.cbz''"
    with p show "final_archive_path name dir_path = p"
      by (simp add: final_archive_path_def)
  qed
qed

lemma temp_ne_final [simp]: "temp_archive_path name dir_path \<noteq> final_archive_path name dir_path"
  by (simp add: temp_archive_path_def final_archive_path_def)

end
