(* ===== verification/Strip_Transform.thy ===== *)
theory Strip_Transform
  imports Classifier Archive_Writer
begin

text \<open>
  Strip Transform (src/src/archive_cleaner.rs): \<open>combine_images\<close> stitches the pages
  into one canvas, \<open>crop_image\<close> cuts a band, and \<open>process_manhwa_images\<close> writes the
  bands of \<open>min_image_size.height\<close> rows as entries \<open>1.webp, 2.webp, ...\<close> of a
  temporary container and renames it over \<open><name>.cbz\<close>. The canvas is specified by
  \<open>stack_pixel\<close>, the vertical concatenation of the resized pages; the bands by the
  rows of the canvas they cover.
\<close>

section \<open>\<open>combine_images\<close>\<close>

text \<open>
  \<open>total_height: u32 = images.iter().map(|img| img.height()).sum()\<close> wraps in a
  release build; \<open>max().unwrap_or(0)\<close> is a fold of \<open>max\<close> from 0.
\<close>

definition total_height :: "image list \<Rightarrow> u32" where
  "total_height images = sum_list (map img_height images)"

definition max_width :: "image list \<Rightarrow> u32" where
  "max_width images = foldr max (map img_width images) 0"

text \<open>
  The loop: resize each page to the canvas width (\<open>resize_exact(max_width,
  img.height(), Lanczos3)\<close>), copy it at \<open>(0, y_offset)\<close>, where a dimension mismatch is
  the panic of \<open>expect("Failed to copy image segment")\<close> and an index out of bounds the
  panic of \<open>put_pixel\<close> (\<open>Image index (x, y) out of bounds (w, h)\<close>), and advance
  \<open>y_offset\<close> (\<open>u32\<close>).
\<close>

fun combine_loop :: "resampler \<Rightarrow> u32 \<Rightarrow> image \<Rightarrow> u32 \<Rightarrow> image list \<Rightarrow> image outcome" where
  "combine_loop resize mw combined y_offset [] = Ok combined"
| "combine_loop resize mw combined y_offset (img # imgs) =
     (let resized_img = resize mw (img_height img) img
      in case copy_from combined resized_img 0 y_offset of
           DimensionMismatch \<Rightarrow> Panic ''Failed to copy image segment''
         | IndexOutOfBounds \<Rightarrow> Panic ''Image index out of bounds''
         | Copied combined' \<Rightarrow> combine_loop resize mw combined' (y_offset + img_height img) imgs)"

definition combine_images :: "resampler \<Rightarrow> image list \<Rightarrow> image outcome" where
  "combine_images resize images =
     combine_loop resize (max_width images)
       (new_rgba8 (max_width images) (total_height images)) 0 images"

text \<open>
  The specification of the canvas: row \<open>b\<close> of the vertical concatenation of the
  pages, each resized to width \<open>mw\<close> and kept at its own height.
\<close>

fun stack_pixel :: "resampler \<Rightarrow> u32 \<Rightarrow> image list \<Rightarrow> nat \<Rightarrow> nat \<Rightarrow> rgba" where
  "stack_pixel resize mw [] a b = blank"
| "stack_pixel resize mw (img # imgs) a b =
     (if b < unat (img_height img) then img_pixels (resize mw (img_height img) img) a b
      else stack_pixel resize mw imgs a (b - unat (img_height img)))"

definition heights_sum :: "image list \<Rightarrow> nat" where
  "heights_sum images = sum_list (map (\<lambda>i. unat (img_height i)) images)"

lemma heights_sum_simps [simp]:
  "heights_sum [] = 0"
  "heights_sum (i # imgs) = unat (img_height i) + heights_sum imgs"
  by (simp_all add: heights_sum_def)

lemma unat_total_height:
  "heights_sum images < 2 ^ 32 \<Longrightarrow> unat (total_height images) = heights_sum images"
proof (induction images)
  case Nil
  then show ?case by (simp add: total_height_def)
next
  case (Cons i imgs)
  then have "unat (total_height imgs) = heights_sum imgs" by simp
  with Cons.prems show ?case
    by (simp add: total_height_def unat_add_lem [THEN iffD1])
qed

lemma max_width_ge: "i \<in> set images \<Longrightarrow> img_width i \<le> max_width images"
  by (induction images) (auto simp: max_width_def max.coboundedI2)

lemma max_width_in: "images \<noteq> [] \<Longrightarrow> max_width images \<in> img_width ` set images"
proof (induction images)
  case Nil
  then show ?case by simp
next
  case (Cons i imgs)
  then show ?case
    by (cases "imgs = []") (auto simp: max_width_def max_def)
qed

text \<open>One step of the loop, in closed form: the loop over the remaining pages fills
  rows \<open>[y, y + heights_sum imgs)\<close> of the canvas with their concatenation.\<close>

lemma combine_loop_fills:
  assumes "resampler_ok resize"
    and "img_width canvas = mw"
    and "unat y + heights_sum imgs \<le> unat (img_height canvas)"
  shows "combine_loop resize mw canvas y imgs =
           Ok (canvas\<lparr>img_pixels := (\<lambda>a b.
                 if a < unat mw \<and> unat y \<le> b \<and> b < unat y + heights_sum imgs
                 then stack_pixel resize mw imgs a (b - unat y) else img_pixels canvas a b)\<rparr>)"
  using assms(2,3)
proof (induction imgs arbitrary: canvas y)
  case Nil
  then show ?case by (cases canvas) (auto simp: fun_eq_iff)
next
  case (Cons i imgs)
  let ?rs = "resize mw (img_height i) i"
  have rs_dims: "img_width ?rs = mw" "img_height ?rs = img_height i"
    using assms(1) by (simp_all add: resampler_ok_def)
  have fit: "unat (img_height i) + unat y \<le> unat (img_height canvas)"
    using Cons.prems(2) by simp
  define canvas' where "canvas' = canvas\<lparr>img_pixels := (\<lambda>a b.
             if a < unat mw \<and> unat y \<le> b \<and> b < unat y + unat (img_height i)
             then img_pixels ?rs a (b - unat y) else img_pixels canvas a b)\<rparr>"
  have "copy_fits canvas ?rs 0 y" using fit Cons.prems(1) rs_dims by (simp add: copy_fits_def)
  then have copy: "copy_from canvas ?rs 0 y = Copied canvas'"
    using rs_dims Cons.prems(1) by (simp add: copy_from_fits canvas'_def fun_eq_iff)
  have y': "unat (y + img_height i) = unat y + unat (img_height i)"
  proof (rule unat_u32_add)
    show "unat y + unat (img_height i) < 4294967296"
      using fit unat_u32_less [of "img_height canvas"] by linarith
  qed
  have IH: "combine_loop resize mw canvas' (y + img_height i) imgs =
           Ok (canvas'\<lparr>img_pixels := (\<lambda>a b.
                 if a < unat mw \<and> unat (y + img_height i) \<le> b \<and> b < unat (y + img_height i) + heights_sum imgs
                 then stack_pixel resize mw imgs a (b - unat (y + img_height i)) else img_pixels canvas' a b)\<rparr>)"
    using Cons.prems y' by (intro Cons.IH) (simp_all add: canvas'_def)
  have eq: "combine_loop resize mw canvas y (i # imgs) = combine_loop resize mw canvas' (y + img_height i) imgs"
    using copy by (simp add: Let_def)
  show ?case
    unfolding eq IH y' by (cases canvas) (auto simp: canvas'_def fun_eq_iff)
qed

lemma combine_loop_panics:
  assumes "resampler_ok resize"
    and "img_width canvas = mw" and "0 < unat mw"
    and "unat y \<le> unat (img_height canvas)"
    and "unat (img_height canvas) < unat y + heights_sum imgs"
  shows "combine_loop resize mw canvas y imgs
           \<in> {Panic ''Failed to copy image segment'', Panic ''Image index out of bounds''}"
  using assms(2,4,5)
proof (induction imgs arbitrary: canvas y)
  case Nil
  then show ?case by simp
next
  case (Cons i imgs)
  let ?rs = "resize mw (img_height i) i"
  have rs_dims: "img_width ?rs = mw" "img_height ?rs = img_height i"
    using assms(1) by (simp_all add: resampler_ok_def)
  show ?case
  proof (cases "copy_from canvas ?rs 0 y")
    case (Copied canvas')
    note c = copy_from_Copied [OF Copied]
    have "copy_fits canvas ?rs 0 y \<or> img_height i = 0"
      using c rs_dims assms(3) by auto
    then have fit: "unat (img_height i) + unat y \<le> unat (img_height canvas)"
      using rs_dims Cons.prems(2) by (auto simp: copy_fits_def)
    have y': "unat (y + img_height i) = unat y + unat (img_height i)"
    proof (rule unat_u32_add)
      show "unat y + unat (img_height i) < 4294967296"
        using fit unat_u32_less [of "img_height canvas"] by linarith
    qed
    have "combine_loop resize mw canvas' (y + img_height i) imgs
            \<in> {Panic ''Failed to copy image segment'', Panic ''Image index out of bounds''}"
      using Cons.prems(1,3) c fit y' by (intro Cons.IH) simp_all
    with Copied show ?thesis by (simp add: Let_def)
  qed (simp_all add: Let_def)
qed

text \<open>The canvas \<open>combine_images\<close> returns, when the page heights sum below \<open>2^32\<close>.\<close>

definition stacked_canvas :: "resampler \<Rightarrow> image list \<Rightarrow> image" where
  "stacked_canvas resize images =
     \<lparr>img_width = max_width images, img_height = total_height images,
      img_pixels = (\<lambda>a b. if a < unat (max_width images) \<and> b < heights_sum images
                           then stack_pixel resize (max_width images) images a b else blank)\<rparr>"

lemma combine_images_ok:
  assumes "resampler_ok resize" and "heights_sum images < 2 ^ 32"
  shows "combine_images resize images = Ok (stacked_canvas resize images)"
proof -
  have h: "unat (total_height images) = heights_sum images"
    using assms(2) by (rule unat_total_height)
  show ?thesis
    unfolding combine_images_def
    using combine_loop_fills [OF assms(1), of "new_rgba8 (max_width images) (total_height images)"
                                "max_width images" 0 images] h
    by (simp add: new_rgba8_def stacked_canvas_def fun_eq_iff)
qed

text \<open>
  C13 (bounds): when the page heights add up to \<open>2^32\<close> or more, the \<open>u32\<close> sum
  \<open>total_height\<close> wraps and the canvas is too short: \<open>combine_images\<close> never produces a
  canvas but panics, either in \<open>expect("Failed to copy image segment")\<close>, when the
  wrapping bounds test of \<open>copy_from\<close> catches the first page that overflows, or in
  \<open>put_pixel\<close>, when that test wraps too and the copy indexes past the canvas.
\<close>

theorem combine_images_overflow:
  assumes "resampler_ok resize" and "2 ^ 32 \<le> heights_sum images" and "max_width images \<noteq> 0"
  shows "combine_images resize images
           \<in> {Panic ''Failed to copy image segment'', Panic ''Image index out of bounds''}"
proof -
  have "unat (total_height images) < heights_sum images"
    by (rule less_le_trans [OF unat_u32_less]) (use assms(2) in simp)
  moreover have "0 < unat (max_width images)" using assms(3) by (simp add: unat_gt_0)
  ultimately show ?thesis
    unfolding combine_images_def
    by (intro combine_loop_panics [OF assms(1)]) (simp_all add: new_rgba8_def)
qed

section \<open>Bands\<close>

text \<open>
  \<open>num_slices = (total_height + slice_height - 1) / slice_height\<close>,
  \<open>slice_bottom = ((slice_index + 1) * slice_height).min(total_height)\<close> and
  \<open>crop_image(image, y_offset, slice_bottom)\<close>
  \<open>= image.crop_imm(0, y_offset, image.width(), slice_bottom - y_offset)\<close>, all in \<open>u32\<close>.
\<close>

definition num_slices :: "u32 \<Rightarrow> u32 \<Rightarrow> u32" where
  "num_slices tot sh = (tot + sh - 1) div sh"

definition slice_bottom :: "u32 \<Rightarrow> u32 \<Rightarrow> u32 \<Rightarrow> u32" where
  "slice_bottom sh tot slice_index = min ((slice_index + 1) * sh) tot"

definition crop_image :: "image \<Rightarrow> u32 \<Rightarrow> u32 \<Rightarrow> image" where
  "crop_image img y_offset sb = crop_imm img 0 y_offset (img_width img) (sb - y_offset)"

definition band :: "image \<Rightarrow> u32 \<Rightarrow> u32 \<Rightarrow> image" where
  "band combined sh slice_index =
     crop_image combined (slice_index * sh) (slice_bottom sh (img_height combined) slice_index)"

text \<open>The bands are the ceiling of \<open>tot / sh\<close> when \<open>tot + sh - 1\<close> does not wrap.\<close>

definition slices_fit :: "u32 \<Rightarrow> u32 \<Rightarrow> bool" where
  "slices_fit tot sh \<longleftrightarrow> 0 < unat sh \<and> unat tot + unat sh \<le> 2 ^ 32"

lemma unat_num_slices:
  assumes "slices_fit tot sh"
  shows "unat (num_slices tot sh) = (unat tot + unat sh - 1) div unat sh"
proof -
  have sh: "1 \<le> sh" and b: "unat tot + unat sh \<le> 2 ^ 32"
    using assms by (auto simp: slices_fit_def word_le_nat_alt)
  have m: "unat (sh - 1) = unat sh - 1"
    using sh by (simp add: unat_sub)
  have sh0: "0 < unat sh" using assms by (simp add: slices_fit_def)
  have "unat (tot + (sh - 1)) = unat tot + unat (sh - 1)"
    by (intro unat_u32_add) (use b m sh0 in simp)
  moreover have e: "tot + sh - 1 = tot + (sh - 1)" by (simp add: add_diff_eq)
  ultimately have "unat (tot + sh - 1) = unat tot + unat sh - 1"
    using m sh0 by (simp only: e)
  then show ?thesis
    by (simp add: num_slices_def unat_div)
qed

lemma num_slices_bounds:
  assumes "slices_fit tot sh" and "k < unat (num_slices tot sh)"
  shows "k * unat sh < unat tot" and "(k + 1) * unat sh < unat tot + unat sh"
proof -
  have q: "k < (unat tot + unat sh - 1) div unat sh"
    using assms by (simp add: unat_num_slices)
  have sh: "0 < unat sh" using assms(1) by (simp add: slices_fit_def)
  then have "(k + 1) * unat sh \<le> unat tot + unat sh - 1"
    using q sh less_eq_div_iff_mult_less_eq [of "unat sh" "k + 1" "unat tot + unat sh - 1"] by simp
  then show "k * unat sh < unat tot" and "(k + 1) * unat sh < unat tot + unat sh"
    using sh by simp_all
qed

lemma unat_min_u32: "unat (min a b :: u32) = min (unat a) (unat b)"
  by (simp add: min_def word_le_nat_alt)

lemma band_arith:
  assumes "slices_fit tot sh" and "k < unat (num_slices tot sh)"
  shows "unat (of_nat k * sh) = k * unat sh"
    and "unat (slice_bottom sh tot (of_nat k)) = min ((k + 1) * unat sh) (unat tot)"
proof -
  note bnd = num_slices_bounds [OF assms]
  have fit: "unat tot + unat sh \<le> 2 ^ 32" and sh: "0 < unat sh"
    using assms(1) by (simp_all add: slices_fit_def)
  have "k \<le> k * unat sh" using sh by simp
  then have k: "k < unat tot" using bnd(1) by linarith
  then have k32: "k + 1 < 4294967296"
    using unat_u32_less [of tot] by linarith
  then have kw: "unat (of_nat k :: u32) = k"
    by (simp add: unat_of_nat)
  have k1: "unat (of_nat k + 1 :: u32) = k + 1"
    using k32 kw by (simp add: unat_u32_add)
  have "k * unat sh < 4294967296"
    using bnd(1) unat_u32_less [of tot] by linarith
  then show "unat (of_nat k * sh) = k * unat sh"
    using kw by (simp add: unat_u32_mult)
  have "(k + 1) * unat sh < 4294967296"
    using bnd(2) fit by simp
  then have "unat ((of_nat k + 1) * sh) = (k + 1) * unat sh"
    using k1 by (simp add: unat_u32_mult)
  then show "unat (slice_bottom sh tot (of_nat k)) = min ((k + 1) * unat sh) (unat tot)"
    by (simp add: slice_bottom_def unat_min_u32)
qed

text \<open>Band \<open>k\<close> has the canvas width, covers rows \<open>[k sh, min ((k+1) sh) H)\<close>
  and shows the canvas there.\<close>

lemma band_dims [dims_simps]:
  assumes "slices_fit (img_height c) sh" and "k < unat (num_slices (img_height c) sh)"
  shows "img_width (band c sh (of_nat k)) = img_width c"
    and "unat (img_height (band c sh (of_nat k))) = min (unat sh) (unat (img_height c) - k * unat sh)"
proof -
  note ar = band_arith [OF assms] and bnd = num_slices_bounds [OF assms]
  let ?y = "of_nat k * sh :: u32" and ?sb = "slice_bottom sh (img_height c) (of_nat k)"
  have y_le: "?y \<le> img_height c"
    using ar(1) bnd(1) by (simp add: word_le_nat_alt)
  have sb_ge: "?y \<le> ?sb"
    using ar bnd(1) by (simp add: word_le_nat_alt)
  have u1: "unat (?sb - ?y) = min ((k + 1) * unat sh) (unat (img_height c)) - k * unat sh"
    using sb_ge ar by (simp add: unat_sub)
  have u2: "unat (img_height c - ?y) = unat (img_height c) - k * unat sh"
    using y_le ar(1) by (simp add: unat_sub)
  have h: "unat (min (?sb - ?y) (img_height c - ?y)) = min (unat sh) (unat (img_height c) - k * unat sh)"
    unfolding unat_min_u32 u1 u2 by (auto simp: min_def)
  show "img_width (band c sh (of_nat k)) = img_width c"
    using y_le by (simp add: band_def crop_image_def crop_imm_dims)
  show "unat (img_height (band c sh (of_nat k))) = min (unat sh) (unat (img_height c) - k * unat sh)"
    using y_le h by (simp add: band_def crop_image_def crop_imm_dims)
qed

lemma band_pixel:
  assumes "slices_fit (img_height c) sh" and "k < unat (num_slices (img_height c) sh)"
    and "in_bounds (band c sh (of_nat k)) a b"
  shows "get_pixel (band c sh (of_nat k)) a b = get_pixel c a (k * unat sh + b)"
proof -
  note ar = band_arith [OF assms(1,2)] and bnd = num_slices_bounds [OF assms(1,2)]
  have y_le: "of_nat k * sh \<le> img_height c"
    using ar(1) bnd(1) by (simp add: word_le_nat_alt)
  have "get_pixel (band c sh (of_nat k)) a b = get_pixel c (a + unat (0::u32)) (b + unat (of_nat k * sh :: u32))"
    using assms(3) y_le unfolding band_def crop_image_def by (intro crop_imm_pixel) simp_all
  then show ?thesis using ar(1) by (simp add: add.commute)
qed

lemma band_rows:
  assumes "0 < (sh::nat)"
  shows "(k * sh \<le> y \<and> y < k * sh + sh) \<longleftrightarrow> k = y div sh"
proof
  assume "k * sh \<le> y \<and> y < k * sh + sh"
  then show "k = y div sh" by (intro div_nat_eqI [symmetric]) (simp_all add: mult.commute)
next
  assume k: "k = y div sh"
  have "k * sh + y mod sh = y" using k by simp
  moreover have "y mod sh < sh" using assms by simp
  ultimately show "k * sh \<le> y \<and> y < k * sh + sh" by linarith
qed

text \<open>
  C5 (roundtrip): the bands the loop cuts partition the canvas. Band \<open>k\<close>, for every
  \<open>k < num_slices\<close>, has the canvas's width and \<open>min sh (H - k sh)\<close> rows, at least one,
  and its row \<open>j\<close> is row \<open>k sh + j\<close> of the canvas; a canvas row \<open>y\<close> lies in band
  \<open>k\<close> exactly when \<open>k = y div sh\<close>, and that band is one the loop writes. All this
  whenever \<open>height + sh\<close> does not exceed \<open>2^32\<close>.
\<close>

theorem bands_cover_canvas:
  assumes fit: "slices_fit (img_height c) sh"
  shows "(\<forall>k < unat (num_slices (img_height c) sh).
            img_width (band c sh (of_nat k)) = img_width c
          \<and> unat (img_height (band c sh (of_nat k))) = min (unat sh) (unat (img_height c) - k * unat sh)
          \<and> 0 < unat (img_height (band c sh (of_nat k)))
          \<and> (\<forall>a j. in_bounds (band c sh (of_nat k)) a j \<longrightarrow>
                 get_pixel (band c sh (of_nat k)) a j = get_pixel c a (k * unat sh + j))
          \<and> (\<forall>y < unat (img_height c).
                 (k * unat sh \<le> y \<and> y < k * unat sh + unat (img_height (band c sh (of_nat k))))
                 \<longleftrightarrow> k = y div unat sh))
       \<and> (\<forall>y < unat (img_height c). y div unat sh < unat (num_slices (img_height c) sh))"
proof (intro conjI allI impI)
  have sh: "0 < unat sh" using fit by (simp add: slices_fit_def)
  fix k assume k: "k < unat (num_slices (img_height c) sh)"
  note d = band_dims [OF fit k] and b = num_slices_bounds [OF fit k]
  show "img_width (band c sh (of_nat k)) = img_width c" by (rule d(1))
  show "unat (img_height (band c sh (of_nat k))) = min (unat sh) (unat (img_height c) - k * unat sh)"
    by (rule d(2))
  show "0 < unat (img_height (band c sh (of_nat k)))" using d(2) b(1) sh by simp
  show "get_pixel (band c sh (of_nat k)) a j = get_pixel c a (k * unat sh + j)"
    if "in_bounds (band c sh (of_nat k)) a j" for a j
    using band_pixel [OF fit k that] .
  show "(k * unat sh \<le> y \<and> y < k * unat sh + unat (img_height (band c sh (of_nat k))))
        \<longleftrightarrow> k = y div unat sh" if y: "y < unat (img_height c)" for y
  proof -
    have "(k * unat sh \<le> y \<and> y < k * unat sh + unat (img_height (band c sh (of_nat k))))
          \<longleftrightarrow> (k * unat sh \<le> y \<and> y < k * unat sh + unat sh)"
      using d(2) y by auto
    then show ?thesis using band_rows [OF sh] by simp
  qed
next
  fix y assume y: "y < unat (img_height c)"
  have sh: "0 < unat sh" using fit by (simp add: slices_fit_def)
  have q: "y div unat sh * unat sh \<le> y" by (rule div_times_less_eq_dividend)
  have "(y div unat sh + 1) * unat sh = y div unat sh * unat sh + unat sh" by simp
  then have "(y div unat sh + 1) * unat sh \<le> unat (img_height c) + unat sh - 1"
    using q y by linarith
  then have "y div unat sh + 1 \<le> (unat (img_height c) + unat sh - 1) div unat sh"
    using sh less_eq_div_iff_mult_less_eq by blast
  then show "y div unat sh < unat (num_slices (img_height c) sh)"
    using fit by (simp add: unat_num_slices)
qed

lemma sum_min_slices:
  assumes "0 < s"
  shows "(\<Sum>k<(h + s - 1) div s. min s (h - k * s)) = (h :: nat)"
  using assms
proof (induction h rule: less_induct)
  case (less h)
  show ?case
  proof (cases "h \<le> s")
    case True
    then have "(h + s - 1) div s = (if h = 0 then 0 else 1)"
      using less.prems by (auto simp: div_eq_0_iff intro: div_nat_eqI)
    then show ?thesis using True by simp
  next
    case False
    have n: "(h + s - 1) div s = Suc ((h - s + s - 1) div s)"
    proof -
      have "h + s - 1 = (h - s + s - 1) + s" using False by simp
      then show ?thesis using less.prems by (simp only: div_add_self2)
    qed
    have shift: "\<And>j. min s (h - Suc j * s) = min s (h - s - j * s)"
      by (simp add: diff_diff_left)
    have "(\<Sum>k<(h - s + s - 1) div s. min s (h - s - k * s)) = h - s"
      using False less.prems by (intro less.IH) simp_all
    then show ?thesis
      unfolding n sum.lessThan_Suc_shift shift using False by simp
  qed
qed

text \<open>
  The band heights \<open>min sh (H - k sh)\<close> of the \<open>num_slices\<close> bands add
  up to the canvas height \<open>H\<close>: the bands tile the canvas, all but the last \<open>sh\<close> high.
\<close>

theorem band_heights_sum:
  assumes "slices_fit (img_height c) sh"
  shows "(\<Sum>k<unat (num_slices (img_height c) sh). unat (img_height (band c sh (of_nat k))))
         = unat (img_height c)"
proof -
  have "(\<Sum>k<unat (num_slices (img_height c) sh). unat (img_height (band c sh (of_nat k))))
        = (\<Sum>k<unat (num_slices (img_height c) sh). min (unat sh) (unat (img_height c) - k * unat sh))"
    using band_dims(2) [OF assms] by (intro sum.cong) simp_all
  also have "\<dots> = unat (img_height c)"
    using assms sum_min_slices [of "unat sh" "unat (img_height c)"]
    by (simp add: unat_num_slices slices_fit_def)
  finally show ?thesis .
qed

section \<open>\<open>process_manhwa_images\<close>\<close>

text \<open>
  The body of \<open>for slice_index in 0..num_slices\<close>: crop the band, encode it (an
  encoder error becomes \<open>io::Error::new(Other, e)\<close>), start the entry
  \<open>format!("{}.webp", slice_index + 1)\<close> stored, write the data.
\<close>

fun write_slices :: "webp_encoder \<Rightarrow> image \<Rightarrow> u32 \<Rightarrow> nat list \<Rightarrow> zip_writer \<Rightarrow> zip_writer st" where
  "write_slices enc combined sh [] new_zip = st_return new_zip"
| "write_slices enc combined sh (k # ks) new_zip =
     (let slice_index = (of_nat k :: u32)
      in case encode_webp enc (band combined sh slice_index) of
           Inl e \<Rightarrow> (\<lambda>s. (Err (OtherErr e), s))
         | Inr image_data \<Rightarrow>
             st_bind (start_file (string_of_nat (unat (slice_index + 1)) @ ''.webp'') Stored new_zip)
               (\<lambda>new_zip. st_bind (write_all image_data new_zip)
                  (\<lambda>new_zip. write_slices enc combined sh ks new_zip)))"

text \<open>
  After \<open>ZipWriter::new\<close>: combine the pages, write every band, rename the temporary
  container to \<open><name>.cbz\<close>. A zero \<open>slice_height\<close> would be a division by zero.
\<close>

definition manhwa_write ::
  "resampler \<Rightarrow> webp_encoder \<Rightarrow> archive_cleaner \<Rightarrow> image list \<Rightarrow> string \<Rightarrow> path \<Rightarrow> zip_writer \<Rightarrow> unit st" where
  "manhwa_write resize enc c images name dir_path new_zip s =
     (case combine_images resize images of
        Ok combined \<Rightarrow>
          (let slice_height = height (min_image_size c); tot = img_height combined
           in if slice_height = 0 then (Panic ''attempt to divide by zero'', s)
              else st_bind (write_slices enc combined slice_height [0..<unat (num_slices tot slice_height)] new_zip)
                     (\<lambda>_. fs_rename (temp_archive_path name dir_path) (final_archive_path name dir_path)) s)
      | Err e \<Rightarrow> (Err e, s)
      | Panic msg \<Rightarrow> (Panic msg, s))"

text \<open>
  \<open>process_manhwa_images\<close>: \<open>extract_file_info(..)?\<close>, \<open>File::create(temp)?\<close>,
  \<open>ZipWriter::new\<close>, the body, and the drop of \<open>new_zip\<close> when the function returns,
  which is after the rename.
\<close>

definition process_manhwa_images ::
  "resampler \<Rightarrow> webp_encoder \<Rightarrow> archive_cleaner \<Rightarrow> image list \<Rightarrow> unit st" where
  "process_manhwa_images resize enc c images s =
     (case extract_file_info (archive_path c) of
        Ok (name, dir_path) \<Rightarrow>
          (let temp = temp_archive_path name dir_path
           in case file_create temp s of
                (Ok ino, s1) \<Rightarrow>
                  (let new_zip = ZipWriter_new ino temp;
                       (r, s2) = manhwa_write resize enc c images name dir_path new_zip s1
                   in (r, zip_drop new_zip s2))
              | (Err e, s1) \<Rightarrow> (Err e, s1)
              | (Panic msg, s1) \<Rightarrow> (Panic msg, s1))
      | Err e \<Rightarrow> (Err e, s)
      | Panic msg \<Rightarrow> (Panic msg, s))"

section \<open>Writing the bands\<close>

text \<open>The entry the loop writes for band \<open>k\<close> when encoding succeeds.\<close>

definition slice_entry :: "webp_encoder \<Rightarrow> image \<Rightarrow> u32 \<Rightarrow> nat \<Rightarrow> zip_entry" where
  "slice_entry enc combined sh k =
     new_entry (webp_name (k + 1)) (projr (encode_webp enc (band combined sh (of_nat k))))"

definition encoder_total :: "webp_encoder \<Rightarrow> bool" where
  "encoder_total enc \<longleftrightarrow> (\<forall>b w h. \<not> isl (enc b w h))"

lemma write_slices_frame:
  "write_slices enc combined sh ks w s = (r, s') \<Longrightarrow> fs_frame (zw_inode w) s s'"
proof (induction ks arbitrary: w s r s')
  case Nil
  then show ?case by (simp add: st_return_def)
next
  case (Cons k ks)
  show ?case
  proof (cases "encode_webp enc (band combined sh (of_nat k))")
    case (Inl e)
    with Cons.prems show ?thesis by (simp add: Let_def)
  next
    case (Inr d)
    obtain r1 s1 where sf: "start_file (string_of_nat (unat (of_nat k + 1 :: u32)) @ ''.webp'') Stored w s = (r1, s1)"
      by fastforce
    have f1: "fs_frame (zw_inode w) s s1" using sf by (rule start_file_frame)
    show ?thesis
    proof (cases r1)
      case (Ok w1)
      obtain r2 s2 where wa: "write_all d w1 s1 = (r2, s2)" by fastforce
      have i1: "zw_inode w1 = zw_inode w" using sf Ok start_file_writer by blast
      have f2: "fs_frame (zw_inode w) s1 s2" using write_all_frame [OF wa] i1 by simp
      show ?thesis
      proof (cases r2)
        case (Ok w2)
        have i2: "zw_inode w2 = zw_inode w" using wa Ok write_all_writer i1 by metis
        have "write_slices enc combined sh ks w2 s2 = (r, s')"
          using Cons.prems Inr sf \<open>r1 = Ok w1\<close> wa Ok by (simp add: Let_def st_bind_def)
        then have "fs_frame (zw_inode w) s2 s'" using Cons.IH i2 by metis
        then show ?thesis using f1 f2 fs_frame_trans by blast
      next
        case (Err e)
        then have "s' = s2" using Cons.prems Inr sf \<open>r1 = Ok w1\<close> wa by (simp add: Let_def st_bind_def)
        then show ?thesis using f1 f2 fs_frame_trans by blast
      next
        case (Panic m)
        then have "s' = s2" using Cons.prems Inr sf \<open>r1 = Ok w1\<close> wa by (simp add: Let_def st_bind_def)
        then show ?thesis using f1 f2 fs_frame_trans by blast
      qed
    next
      case (Err e)
      then have "s' = s1" using Cons.prems Inr sf by (simp add: Let_def st_bind_def)
      then show ?thesis using f1 by simp
    next
      case (Panic m)
      then have "s' = s1" using Cons.prems Inr sf by (simp add: Let_def st_bind_def)
      then show ?thesis using f1 by simp
    qed
  qed
qed

definition fresh_slices :: "nat list \<Rightarrow> zip_writer \<Rightarrow> bool" where
  "fresh_slices ks w \<longleftrightarrow>
     distinct ks \<and> (\<forall>k \<in> set ks. k + 1 < 2 ^ 32 \<and> webp_name (k + 1) \<notin> entry_name ` set (zw_entries w))"

lemma write_slices_ok:
  assumes "writes_succeed s" and "encoder_total enc" and "fresh_slices ks w"
  shows "write_slices enc combined sh ks w s =
           (Ok (w\<lparr>zw_entries := zw_entries w @ map (slice_entry enc combined sh) ks\<rparr>),
            if ks = [] then s
            else zw_store (w\<lparr>zw_entries := zw_entries w @ map (slice_entry enc combined sh) ks\<rparr>) s)"
  using assms(1,3)
proof (induction ks arbitrary: w s)
  case Nil
  then show ?case by (simp add: st_return_def)
next
  case (Cons k ks)
  have "\<not> isl (encode_webp enc (band combined sh (of_nat k)))"
    using assms(2) by (simp add: encoder_total_def encode_webp_eq)
  then obtain d where d: "encode_webp enc (band combined sh (of_nat k)) = Inr d"
    by (cases "encode_webp enc (band combined sh (of_nat k))") auto
  have lt: "k + 1 < 4294967296"
    using Cons.prems(2) by (simp add: fresh_slices_def)
  then have kw: "unat (of_nat k :: u32) = k"
    by (simp add: unat_of_nat)
  have k1: "unat (of_nat k + 1 :: u32) = k + 1"
    using lt kw by (simp add: unat_u32_add)
  have name: "string_of_nat (unat (of_nat k + 1 :: u32)) @ ''.webp'' = webp_name (k + 1)"
    using k1 by (simp add: webp_name_def)
  let ?w1 = "w\<lparr>zw_entries := zw_entries w @ [new_entry (webp_name (k + 1)) d]\<rparr>"
  have fresh: "webp_name (k + 1) \<notin> entry_name ` set (zw_entries w)"
    using Cons.prems(2) by (simp add: fresh_slices_def)
  have step: "write_slices enc combined sh (k # ks) w s =
                write_slices enc combined sh ks ?w1 (zw_store ?w1 s)"
    using start_write_ok [OF Cons.prems(1) fresh] d name by (simp add: Let_def)
  have fresh1: "fresh_slices ks ?w1"
    using Cons.prems(2) by (auto simp: fresh_slices_def new_entry_def)
  have e: "slice_entry enc combined sh k = new_entry (webp_name (k + 1)) d"
    using d by (simp add: slice_entry_def)
  show ?case
    unfolding step Cons.IH [OF writes_succeed_store [THEN iffD2, OF Cons.prems(1)] fresh1]
    by (simp add: e)
qed

section \<open>The strip pass\<close>

text \<open>The entries of the rewritten container: band \<open>k\<close> of the stacked canvas as \<open>k+1.webp\<close>.\<close>

definition strip_entries :: "resampler \<Rightarrow> webp_encoder \<Rightarrow> archive_cleaner \<Rightarrow> image list \<Rightarrow> zip_entry list" where
  "strip_entries resize enc c images =
     map (slice_entry enc (stacked_canvas resize images) (height (min_image_size c)))
         [0..<unat (num_slices (total_height images) (height (min_image_size c)))]"

lemma strip_entries_names:
  "map entry_name (strip_entries resize enc c images)
     = map webp_name [1..<Suc (unat (num_slices (total_height images) (height (min_image_size c))))]"
proof -
  let ?n = "unat (num_slices (total_height images) (height (min_image_size c)))"
  have u: "[1..<Suc ?n] = map Suc [0..<?n]" by (simp add: map_Suc_upt)
  show ?thesis
    unfolding u by (simp add: strip_entries_def slice_entry_def new_entry_def comp_def del: upt_Suc)
qed

lemma slices_fit_nonzero: "slices_fit tot sh \<Longrightarrow> sh \<noteq> 0"
  by (auto simp: slices_fit_def)

lemma manhwa_write_ok:
  assumes "writes_succeed s" and "encoder_total enc" and "resampler_ok resize"
    and "heights_sum images < 2 ^ 32"
    and "height (min_image_size c) \<noteq> 0"
    and "fs_dir s (temp_archive_path name dir_path) = Some ino"
    and "fs_inode s ino = Some (Blob [])"
  shows "\<exists>s2. manhwa_write resize enc c images name dir_path
                 (ZipWriter_new ino (temp_archive_path name dir_path)) s =
               (Ok (), s2\<lparr>fs_dir := ((fs_dir s2)(temp_archive_path name dir_path := None))
                               (final_archive_path name dir_path \<mapsto> ino)\<rparr>)
           \<and> fs_dir s2 = fs_dir s \<and> fs_fails s2 = fs_fails s
           \<and> zip_contents (fs_inode s2 ino) = strip_entries resize enc c images
           \<and> ((strip_entries resize enc c images = [] \<and> fs_inode s2 ino = Some (Blob []))
              \<or> fs_inode s2 ino = Some (ZipFile (strip_entries resize enc c images) False))"
proof -
  let ?sh = "height (min_image_size c)" and ?canvas = "stacked_canvas resize images"
  let ?w = "ZipWriter_new ino (temp_archive_path name dir_path)"
  let ?n = "unat (num_slices (total_height images) ?sh)"
  have comb: "combine_images resize images = Ok ?canvas"
    using assms(3,4) by (rule combine_images_ok)
  have sh0: "?sh \<noteq> 0" by (rule assms(5))
  have hc: "img_height ?canvas = total_height images" by (simp add: stacked_canvas_def)
  have n32: "?n < 4294967296" by (rule unat_u32_less)
  then have fresh: "fresh_slices [0..<?n] ?w"
    by (auto simp: fresh_slices_def ZipWriter_new_def simp del: unat_u32_less)
  define wf where "wf = ?w\<lparr>zw_entries := zw_entries ?w @ map (slice_entry enc ?canvas ?sh) [0..<?n]\<rparr>"
  define s2 where "s2 = (if [0..<?n] = [] then s else zw_store wf s)"
  have ws: "write_slices enc ?canvas ?sh [0..<?n] ?w s = (Ok wf, s2)"
    unfolding wf_def s2_def using write_slices_ok [OF assms(1,2) fresh] .
  have d2: "fs_dir s2 = fs_dir s" and ff2: "fs_fails s2 = fs_fails s"
    by (simp_all add: s2_def zw_store_def)
  have nf2: "writes_succeed s2" using assms(1) ff2 by (simp add: writes_succeed_def)
  have i2: "(strip_entries resize enc c images = [] \<and> fs_inode s2 ino = Some (Blob []))
            \<or> fs_inode s2 ino = Some (ZipFile (strip_entries resize enc c images) False)"
    using assms(7) by (auto simp: s2_def wf_def zw_store_def strip_entries_def ZipWriter_new_def)
  then have c2: "zip_contents (fs_inode s2 ino) = strip_entries resize enc c images"
    by (auto simp: zip_contents_def strip_entries_def)
  have rn: "fs_rename (temp_archive_path name dir_path) (final_archive_path name dir_path) s2
            = (Ok (), s2\<lparr>fs_dir := ((fs_dir s2)(temp_archive_path name dir_path := None))
                               (final_archive_path name dir_path \<mapsto> ino)\<rparr>)"
    using nf2 d2 assms(6) by (intro fs_rename_ok) simp_all
  have "manhwa_write resize enc c images name dir_path ?w s =
          (Ok (), s2\<lparr>fs_dir := ((fs_dir s2)(temp_archive_path name dir_path := None))
                               (final_archive_path name dir_path \<mapsto> ino)\<rparr>)"
    using comb sh0 ws rn hc by (simp add: manhwa_write_def Let_def st_bind_def)
  then show ?thesis using d2 ff2 c2 i2 by blast
qed

text \<open>
  The whole strip pass when every operation but the final \<open>finish\<close> succeeds: the
  container at \<open><name>.cbz\<close> holds exactly the bands \<open>1.webp .. n.webp\<close> of the
  stacked canvas, the temporary name is gone, and the container is finished exactly when
  the writing of its central directory, which happens after the rename, succeeds.
\<close>

lemma process_manhwa_images_result:
  assumes "writes_succeed s" and "encoder_total enc" and "resampler_ok resize"
    and "extract_file_info (archive_path c) = Ok (name, dir_path)"
    and "heights_sum images < 2 ^ 32"
    and "height (min_image_size c) \<noteq> 0"
  shows "\<exists>ino s'. process_manhwa_images resize enc c images s = (Ok (), s')
           \<and> fs_dir s' (final_archive_path name dir_path) = Some ino
           \<and> fs_dir s' (temp_archive_path name dir_path) = None
           \<and> zip_contents (fs_inode s' ino) = strip_entries resize enc c images
           \<and> (fs_inode s' ino = Some (ZipFile (strip_entries resize enc c images) True)
              \<longleftrightarrow> \<not> fs_fails s (Finish (temp_archive_path name dir_path)))"
proof -
  let ?temp = "temp_archive_path name dir_path" and ?final = "final_archive_path name dir_path"
  obtain ino where cr: "file_create ?temp s = (Ok ino,
           s\<lparr>fs_dir := (fs_dir s)(?temp \<mapsto> ino), fs_inode := (fs_inode s)(ino \<mapsto> Blob []),
             fs_next := (if fs_dir s ?temp = None then Suc (fs_next s) else fs_next s)\<rparr>)"
    using file_create_ok [OF assms(1)] by blast
  let ?s1 = "s\<lparr>fs_dir := (fs_dir s)(?temp \<mapsto> ino), fs_inode := (fs_inode s)(ino \<mapsto> Blob []),
             fs_next := (if fs_dir s ?temp = None then Suc (fs_next s) else fs_next s)\<rparr>"
  have nf1: "writes_succeed ?s1" using assms(1) by (simp add: writes_succeed_def)
  have b1: "fs_inode ?s1 ino = Some (Blob [])" by simp
  have t1: "fs_dir ?s1 ?temp = Some ino" by simp
  obtain s2 where mw: "manhwa_write resize enc c images name dir_path (ZipWriter_new ino ?temp) ?s1 =
               (Ok (), s2\<lparr>fs_dir := ((fs_dir s2)(?temp := None))(?final \<mapsto> ino)\<rparr>)"
      and d2: "fs_dir s2 = fs_dir ?s1" and ff2: "fs_fails s2 = fs_fails s"
      and c2: "zip_contents (fs_inode s2 ino) = strip_entries resize enc c images"
      and i2: "(strip_entries resize enc c images = [] \<and> fs_inode s2 ino = Some (Blob []))
               \<or> fs_inode s2 ino = Some (ZipFile (strip_entries resize enc c images) False)"
    using manhwa_write_ok [OF nf1 assms(2,3,5,6) t1 b1] by auto
  let ?s3 = "s2\<lparr>fs_dir := ((fs_dir s2)(?temp := None))(?final \<mapsto> ino)\<rparr>"
  let ?w = "ZipWriter_new ino ?temp"
  have run: "process_manhwa_images resize enc c images s = (Ok (), zip_drop ?w ?s3)"
    using assms(4) cr mw by (simp add: process_manhwa_images_def Let_def)
  have dir: "fs_dir (zip_drop ?w ?s3) ?final = Some ino" "fs_dir (zip_drop ?w ?s3) ?temp = None"
    by (simp_all add: zip_drop_result)
  have ino: "fs_inode (zip_drop ?w ?s3) ino =
               (if fs_fails s (Finish ?temp) then fs_inode s2 ino
                else Some (ZipFile (strip_entries resize enc c images) True))"
    using zip_drop_result(1) [of ?w ?s3] c2 ff2 by (simp add: ZipWriter_new_def)
  have "zip_contents (fs_inode (zip_drop ?w ?s3) ino) = strip_entries resize enc c images"
    using ino c2 by (simp add: zip_contents_def)
  moreover have "fs_inode (zip_drop ?w ?s3) ino = Some (ZipFile (strip_entries resize enc c images) True)
                 \<longleftrightarrow> \<not> fs_fails s (Finish ?temp)"
    using ino i2 by auto
  ultimately show ?thesis using run dir by blast
qed

text \<open>What the body after \<open>ZipWriter::new\<close> may change: the writer's inode, and the
  directory only by the final rename, when everything before it succeeded.\<close>

lemma manhwa_write_effect:
  assumes "manhwa_write resize enc c images name dir_path w s = (r, s')"
  shows "(\<forall>i. i \<noteq> zw_inode w \<longrightarrow> fs_inode s' i = fs_inode s i)
         \<and> (fs_dir s' = fs_dir s \<or>
            (r = Ok () \<and> (\<exists>ino. fs_dir s' = ((fs_dir s)(temp_archive_path name dir_path := None))
                                              (final_archive_path name dir_path \<mapsto> ino))))"
proof (cases "combine_images resize images")
  case (Ok combined)
  let ?sh = "height (min_image_size c)"
  show ?thesis
  proof (cases "?sh = 0")
    case True
    with assms Ok show ?thesis by (simp add: manhwa_write_def Let_def)
  next
    case False
    obtain r1 s1 where ws: "write_slices enc combined ?sh [0..<unat (num_slices (img_height combined) ?sh)] w s = (r1, s1)"
      by fastforce
    have f1: "fs_frame (zw_inode w) s s1" using ws by (rule write_slices_frame)
    show ?thesis
    proof (cases r1)
      case (Ok w1)
      obtain r2 s2 where rn: "fs_rename (temp_archive_path name dir_path) (final_archive_path name dir_path) s1 = (r2, s2)"
        by fastforce
      have "r = r2 \<and> s' = s2"
        using assms \<open>combine_images resize images = Ok combined\<close> False ws Ok rn
        by (simp add: manhwa_write_def Let_def st_bind_def)
      then show ?thesis
        using fs_rename_effect [OF rn] f1 by (auto simp: fs_frame_def)
    next
      case (Err e)
      then have "s' = s1"
        using assms \<open>combine_images resize images = Ok combined\<close> False ws
        by (simp add: manhwa_write_def Let_def st_bind_def)
      then show ?thesis using f1 by (simp add: fs_frame_def)
    next
      case (Panic m)
      then have "s' = s1"
        using assms \<open>combine_images resize images = Ok combined\<close> False ws
        by (simp add: manhwa_write_def Let_def st_bind_def)
      then show ?thesis using f1 by (simp add: fs_frame_def)
    qed
  qed
next
  case (Err e)
  with assms show ?thesis by (simp add: manhwa_write_def)
next
  case (Panic m)
  with assms show ?thesis by (simp add: manhwa_write_def)
qed

text \<open>What the strip pass does to the original archive's name and inode.\<close>

lemma manhwa_keeps_original:
  assumes "extract_file_info (archive_path c) = Ok (name, dir_path)"
    and "fs_dir s (archive_path c) = Some i0" and "i0 < fs_next s"
    and "fs_dir s (temp_archive_path name dir_path) \<noteq> Some i0"
    and "process_manhwa_images resize enc c images s = (r, s')"
  shows "fs_inode s' i0 = fs_inode s i0
         \<and> (fs_dir s' (archive_path c) = Some i0
            \<or> (r = Ok () \<and> final_archive_path name dir_path = archive_path c))"
proof -
  let ?temp = "temp_archive_path name dir_path" and ?P = "archive_path c"
  have tP: "?temp \<noteq> ?P" using assms(1) by (rule temp_not_original)
  obtain r1 s1 where cr: "file_create ?temp s = (r1, s1)" by fastforce
  show ?thesis
  proof (cases r1)
    case (Ok ino)
    note eff = file_create_effect [OF cr [unfolded Ok]]
    have ino: "ino \<noteq> i0" using eff assms(3,4) by auto
    obtain r2 s2 where mw: "manhwa_write resize enc c images name dir_path (ZipWriter_new ino ?temp) s1 = (r2, s2)"
      by fastforce
    have res: "r = r2 \<and> s' = zip_drop (ZipWriter_new ino ?temp) s2"
      using assms(1,5) cr Ok mw by (simp add: process_manhwa_images_def Let_def)
    note e2 = manhwa_write_effect [OF mw]
    have inode: "fs_inode s' i0 = fs_inode s i0"
      using res e2 eff ino fs_frame_drop [of "ZipWriter_new ino ?temp" s2]
      by (simp add: fs_frame_def ZipWriter_new_def)
    have d1: "fs_dir s1 ?P = Some i0" using eff tP assms(2) by simp
    have "fs_dir s' ?P = Some i0 \<or> (r = Ok () \<and> final_archive_path name dir_path = ?P)"
      using res e2 d1 tP fs_frame_drop [of "ZipWriter_new ino ?temp" s2]
      by (auto simp: fs_frame_def ZipWriter_new_def split: if_splits)
    with inode show ?thesis by blast
  next
    case (Err e)
    then have "s1 = s" using cr file_create_fail by blast
    moreover have "s' = s1" using assms(1,5) cr Err by (simp add: process_manhwa_images_def Let_def)
    ultimately show ?thesis using assms(2) by simp
  next
    case (Panic m)
    then have "s1 = s" using cr file_create_fail by blast
    moreover have "s' = s1" using assms(1,5) cr Panic by (simp add: process_manhwa_images_def Let_def)
    ultimately show ?thesis using assms(2) by simp
  qed
qed

section \<open>Properties\<close>

text \<open>
  C3 (safety): whatever fails during the strip pass, the original archive keeps its
  contents, and it keeps its name unless the pass succeeds and the final container is the
  original path. The hypotheses exclude a temporary file that is a hard link to the
  original, and an inode number not yet allocated.
\<close>

theorem process_manhwa_images_keeps_original:
  assumes "extract_file_info (archive_path c) = Ok (name, dir_path)"
    and "fs_dir s (archive_path c) = Some i0" and "i0 < fs_next s"
    and "fs_dir s (temp_archive_path name dir_path) \<noteq> Some i0"
    and "process_manhwa_images resize enc c images s = (r, s')"
  shows "fs_inode s' i0 = fs_inode s i0
         \<and> (fs_dir s' (archive_path c) = Some i0
            \<or> (r = Ok () \<and> final_archive_path name dir_path = archive_path c))"
  by (rule manhwa_keeps_original [OF assms])

text \<open>
  C2 (functional): when no I/O operation fails, the encoder succeeds, and the heights fit
  in \<open>u32\<close>, the strip pass returns \<open>Ok\<close> and leaves at \<open><name>.cbz\<close> a finished
  container whose entries are exactly the bands of the stacked canvas, stored as
  \<open>1.webp, 2.webp, ...\<close> in order; the temporary name is gone.
\<close>

theorem process_manhwa_images_ok:
  assumes "no_faults s" and "encoder_total enc" and "resampler_ok resize"
    and "extract_file_info (archive_path c) = Ok (name, dir_path)"
    and "heights_sum images < 2 ^ 32"
    and "slices_fit (total_height images) (height (min_image_size c))"
  shows "\<exists>ino s'. process_manhwa_images resize enc c images s = (Ok (), s')
           \<and> fs_dir s' (final_archive_path name dir_path) = Some ino
           \<and> fs_dir s' (temp_archive_path name dir_path) = None
           \<and> fs_inode s' ino = Some (ZipFile (strip_entries resize enc c images) True)"
proof -
  have "\<not> fs_fails s (Finish (temp_archive_path name dir_path))"
    using assms(1) by (simp add: no_faults_def)
  then show ?thesis
    using process_manhwa_images_result [OF no_faults_writes_succeed [OF assms(1)] assms(2-5)
            slices_fit_nonzero [OF assms(6)]]
    by blast
qed

theorem process_manhwa_images_ok_witness:
  "no_faults \<lparr>fs_dir = [[''d'', ''a.cbz''] \<mapsto> 0], fs_inode = [0 \<mapsto> ZipFile [] True],
              fs_next = 1, fs_fails = (\<lambda>_. False)\<rparr>
   \<and> encoder_total (\<lambda>b w h. Inr b) \<and> resampler_ok nearest_resize
   \<and> extract_file_info (archive_path (ArchiveCleaner_new [''d'', ''a.cbz''])) = Ok (''a'', [''d''])
   \<and> heights_sum [new_rgba8 2 3000] < 2 ^ 32
   \<and> slices_fit (total_height [new_rgba8 2 3000])
        (height (min_image_size (ArchiveCleaner_new [''d'', ''a.cbz''])))
   \<and> (\<exists>ino s'. process_manhwa_images nearest_resize (\<lambda>b w h. Inr b)
           (ArchiveCleaner_new [''d'', ''a.cbz'']) [new_rgba8 2 3000]
           \<lparr>fs_dir = [[''d'', ''a.cbz''] \<mapsto> 0], fs_inode = [0 \<mapsto> ZipFile [] True],
            fs_next = 1, fs_fails = (\<lambda>_. False)\<rparr> = (Ok (), s')
        \<and> fs_dir s' (final_archive_path ''a'' [''d'']) = Some ino
        \<and> fs_dir s' (temp_archive_path ''a'' [''d'']) = None
        \<and> fs_inode s' ino = Some (ZipFile (strip_entries nearest_resize (\<lambda>b w h. Inr b)
               (ArchiveCleaner_new [''d'', ''a.cbz'']) [new_rgba8 2 3000]) True))"
proof -
  let ?s = "\<lparr>fs_dir = [[''d'', ''a.cbz''] \<mapsto> 0], fs_inode = [0 \<mapsto> ZipFile [] True],
              fs_next = 1, fs_fails = (\<lambda>_. False)\<rparr>"
  have h1: "no_faults ?s" by (simp add: no_faults_def)
  have h2: "encoder_total (\<lambda>b w h. Inr b)" by (simp add: encoder_total_def)
  have h4: "extract_file_info (archive_path (ArchiveCleaner_new [''d'', ''a.cbz''])) = Ok (''a'', [''d''])"
    by (simp add: extract_file_info_def ArchiveCleaner_new_def path_file_name_def path_parent_def
                  rsplit_once_def)
  have h5: "heights_sum [new_rgba8 2 3000] < 2 ^ 32" by (simp add: new_rgba8_def)
  have h6: "slices_fit (total_height [new_rgba8 2 3000])
              (height (min_image_size (ArchiveCleaner_new [''d'', ''a.cbz''])))"
    by (simp add: slices_fit_def total_height_def new_rgba8_def ArchiveCleaner_new_def IMAGE_SIZE_def)
  show ?thesis
    using h1 h2 nearest_resize_ok h4 h5 h6
          process_manhwa_images_ok [OF h1 h2 nearest_resize_ok h4 h5 h6] by blast
qed

theorem process_manhwa_images_keeps_original_witness:
  "extract_file_info (archive_path (ArchiveCleaner_new [''d'', ''a.cbz''])) = Ok (''a'', [''d''])
   \<and> fs_dir \<lparr>fs_dir = [[''d'', ''a.cbz''] \<mapsto> 0], fs_inode = [0 \<mapsto> ZipFile [] True],
              fs_next = 1, fs_fails = (\<lambda>_. False)\<rparr> (archive_path (ArchiveCleaner_new [''d'', ''a.cbz''])) = Some 0
   \<and> (0::nat) < fs_next \<lparr>fs_dir = [[''d'', ''a.cbz''] \<mapsto> 0], fs_inode = [0 \<mapsto> ZipFile [] True],
              fs_next = 1, fs_fails = (\<lambda>_. False)\<rparr>
   \<and> fs_dir \<lparr>fs_dir = [[''d'', ''a.cbz''] \<mapsto> 0], fs_inode = [0 \<mapsto> ZipFile [] True],
              fs_next = 1, fs_fails = (\<lambda>_. False)\<rparr> (temp_archive_path ''a'' [''d'']) \<noteq> Some 0
   \<and> (let s = \<lparr>fs_dir = [[''d'', ''a.cbz''] \<mapsto> 0], fs_inode = [0 \<mapsto> ZipFile [] True],
                fs_next = 1, fs_fails = (\<lambda>_. False)\<rparr>;
            (r, s') = process_manhwa_images nearest_resize (\<lambda>b w h. Inr b)
                        (ArchiveCleaner_new [''d'', ''a.cbz'']) [new_rgba8 2 3000] s
        in fs_inode s' 0 = fs_inode s 0
           \<and> (fs_dir s' (archive_path (ArchiveCleaner_new [''d'', ''a.cbz''])) = Some 0
              \<or> (r = Ok () \<and> final_archive_path ''a'' [''d''] = archive_path (ArchiveCleaner_new [''d'', ''a.cbz'']))))"
proof -
  let ?s = "\<lparr>fs_dir = [[''d'', ''a.cbz''] \<mapsto> 0], fs_inode = [0 \<mapsto> ZipFile [] True],
              fs_next = 1, fs_fails = (\<lambda>_. False)\<rparr>"
  let ?c = "ArchiveCleaner_new [''d'', ''a.cbz'']"
  have h1: "extract_file_info (archive_path ?c) = Ok (''a'', [''d''])"
    by (simp add: extract_file_info_def ArchiveCleaner_new_def path_file_name_def path_parent_def
                  rsplit_once_def)
  have h2: "fs_dir ?s (archive_path ?c) = Some 0" by (simp add: ArchiveCleaner_new_def)
  have h3: "(0::nat) < fs_next ?s" by simp
  have h4: "fs_dir ?s (temp_archive_path ''a'' [''d'']) \<noteq> Some 0" by (simp add: temp_archive_path_def)
  obtain r s' where run: "process_manhwa_images nearest_resize (\<lambda>b w h. Inr b) ?c [new_rgba8 2 3000] ?s = (r, s')"
    by fastforce
  show ?thesis
    using h1 h2 h3 h4 run process_manhwa_images_keeps_original [OF h1 h2 h3 h4 run] by simp
qed

text \<open>
  C4 (equivalence): \<open>combine_images\<close>, which copies each resized page into a blank
  canvas at a running \<open>u32\<close> offset, computes the vertical concatenation of the resized
  pages: when the heights add up below \<open>2^32\<close> it returns a canvas as wide as the widest
  page and as high as all pages together whose every pixel is \<open>stack_pixel\<close>'s.
\<close>

theorem combine_images_correct:
  assumes "resampler_ok resize" and "heights_sum images < 2 ^ 32"
  shows "\<exists>c. combine_images resize images = Ok c
           \<and> img_width c = max_width images \<and> unat (img_height c) = heights_sum images
           \<and> (\<forall>a b. a < unat (max_width images) \<and> b < heights_sum images
                  \<longrightarrow> get_pixel c a b = stack_pixel resize (max_width images) images a b)"
proof -
  have "unat (total_height images) = heights_sum images"
    using assms(2) by (rule unat_total_height)
  then show ?thesis
    using combine_images_ok [OF assms]
    by (auto simp: stacked_canvas_def get_pixel_def)
qed

theorem combine_images_correct_witness:
  "resampler_ok nearest_resize \<and> heights_sum [new_rgba8 700 2200, new_rgba8 700 2300] < 2 ^ 32
   \<and> (\<exists>c. combine_images nearest_resize [new_rgba8 700 2200, new_rgba8 700 2300] = Ok c
        \<and> img_width c = max_width [new_rgba8 700 2200, new_rgba8 700 2300]
        \<and> unat (img_height c) = heights_sum [new_rgba8 700 2200, new_rgba8 700 2300]
        \<and> (\<forall>a b. a < unat (max_width [new_rgba8 700 2200, new_rgba8 700 2300])
                 \<and> b < heights_sum [new_rgba8 700 2200, new_rgba8 700 2300]
               \<longrightarrow> get_pixel c a b = stack_pixel nearest_resize
                      (max_width [new_rgba8 700 2200, new_rgba8 700 2300])
                      [new_rgba8 700 2200, new_rgba8 700 2300] a b))"
proof -
  have h: "heights_sum [new_rgba8 700 2200, new_rgba8 700 2300] < 2 ^ 32" by (simp add: new_rgba8_def)
  show ?thesis using nearest_resize_ok h combine_images_correct [OF nearest_resize_ok h] by blast
qed

theorem bands_cover_canvas_witness:
  "unat (img_height (band (new_rgba8 700 4500) 1024 4)) = 404
   \<and> img_width (band (new_rgba8 700 4500) 1024 4) = 700
   \<and> 2500 div unat (1024::u32) < unat (num_slices (img_height (new_rgba8 700 4500)) 1024)"
proof -
  have h1: "slices_fit (img_height (new_rgba8 700 4500)) 1024"
    by (simp add: slices_fit_def new_rgba8_def)
  have n: "unat (num_slices (img_height (new_rgba8 700 4500)) 1024) = 5"
    by (simp add: num_slices_def new_rgba8_def)
  note w = bands_cover_canvas [OF h1]
  have a: "unat (img_height (band (new_rgba8 700 4500) 1024 (of_nat 4))) = 404
           \<and> img_width (band (new_rgba8 700 4500) 1024 (of_nat 4)) = 700"
    using conjunct1 [OF w, rule_format, of 4] n by (simp add: new_rgba8_def)
  have b: "2500 div unat (1024::u32) < unat (num_slices (img_height (new_rgba8 700 4500)) 1024)"
    using conjunct2 [OF w, rule_format, of 2500] by (simp add: new_rgba8_def)
  show ?thesis using a b by simp
qed

theorem band_heights_sum_witness:
  "slices_fit (img_height (new_rgba8 700 4500)) 1024
   \<and> (\<Sum>k<unat (num_slices (img_height (new_rgba8 700 4500)) 1024).
          unat (img_height (band (new_rgba8 700 4500) 1024 (of_nat k)))) = 4500"
proof -
  have h1: "slices_fit (img_height (new_rgba8 700 4500)) 1024" by (simp add: slices_fit_def new_rgba8_def)
  show ?thesis using h1 band_heights_sum [OF h1] by (simp add: new_rgba8_def)
qed

theorem combine_images_overflow_witness:
  "combine_images nearest_resize
     [new_rgba8 1 2147483648, new_rgba8 1 2147483648, new_rgba8 1 2147483648]
   \<in> {Panic ''Failed to copy image segment'', Panic ''Image index out of bounds''}"
proof -
  have h2: "2 ^ 32 \<le> heights_sum [new_rgba8 1 2147483648, new_rgba8 1 2147483648, new_rgba8 1 2147483648]"
    by (simp add: new_rgba8_def)
  have h3: "max_width [new_rgba8 1 2147483648, new_rgba8 1 2147483648, new_rgba8 1 2147483648] \<noteq> 0"
    by (simp add: max_width_def new_rgba8_def)
  show ?thesis using combine_images_overflow [OF nearest_resize_ok h2 h3] .
qed

text \<open>Three pages of \<open>2^31\<close> rows: the second copy passes the wrapping bounds test
  (\<open>2^31 + 2^31 = 0\<close>) and writes past the canvas of \<open>2^31\<close> rows.\<close>

lemma combine_images_index_panic:
  "combine_images nearest_resize
     [new_rgba8 1 2147483648, new_rgba8 1 2147483648, new_rgba8 1 2147483648]
   = Panic ''Image index out of bounds''"
  by (simp add: combine_images_def max_width_def total_height_def new_rgba8_def nearest_resize_def
                copy_from_def copy_fits_def Let_def)

text \<open>
  C11 (functional): the container the strip pass leaves at \<open><name>.cbz\<close> names its
  entries \<open>1.webp, 2.webp, ..., n.webp\<close> for the \<open>n = num_slices\<close> bands, in band
  order: the names are distinct, each is decimal digits followed by \<open>.webp\<close>, and every
  entry is stored uncompressed.
\<close>

theorem strip_entry_names:
  assumes "no_faults s" and "encoder_total enc" and "resampler_ok resize"
    and "extract_file_info (archive_path c) = Ok (name, dir_path)"
    and "heights_sum images < 2 ^ 32" and "height (min_image_size c) \<noteq> 0"
  shows "\<exists>ino s' es. process_manhwa_images resize enc c images s = (Ok (), s')
           \<and> fs_dir s' (final_archive_path name dir_path) = Some ino
           \<and> fs_inode s' ino = Some (ZipFile es True)
           \<and> map entry_name es
               = map webp_name [1..<Suc (unat (num_slices (total_height images) (height (min_image_size c))))]
           \<and> distinct (map entry_name es)
           \<and> list_all webp_shaped (map entry_name es)
           \<and> list_all (\<lambda>e. entry_method e = Stored) es"
proof -
  have "\<not> fs_fails s (Finish (temp_archive_path name dir_path))"
    using assms(1) by (simp add: no_faults_def)
  then obtain ino s' where "process_manhwa_images resize enc c images s = (Ok (), s')"
      "fs_dir s' (final_archive_path name dir_path) = Some ino"
      "fs_inode s' ino = Some (ZipFile (strip_entries resize enc c images) True)"
    using process_manhwa_images_result [OF no_faults_writes_succeed [OF assms(1)] assms(2-6)] by blast
  moreover have "map entry_name (strip_entries resize enc c images)
      = map webp_name [1..<Suc (unat (num_slices (total_height images) (height (min_image_size c))))]"
    by (rule strip_entries_names)
  moreover have "list_all (\<lambda>e. entry_method e = Stored) (strip_entries resize enc c images)"
    by (simp add: list_all_iff strip_entries_def slice_entry_def new_entry_def)
  ultimately show ?thesis
    by (intro exI [of _ ino] exI [of _ s'] exI [of _ "strip_entries resize enc c images"])
       (simp add: distinct_webp_names webp_name_shaped list_all_iff del: upt_Suc)
qed

theorem strip_entry_names_witness:
  "\<exists>ino s' es. process_manhwa_images nearest_resize (\<lambda>b w h. Inr b)
           (ArchiveCleaner_new [''d'', ''a.cbz'']) [new_rgba8 2 3000]
           \<lparr>fs_dir = [[''d'', ''a.cbz''] \<mapsto> 0], fs_inode = [0 \<mapsto> ZipFile [] True],
            fs_next = 1, fs_fails = (\<lambda>_. False)\<rparr> = (Ok (), s')
        \<and> fs_dir s' (final_archive_path ''a'' [''d'']) = Some ino
        \<and> fs_inode s' ino = Some (ZipFile es True)
        \<and> map entry_name es = [''1.webp'', ''2.webp'', ''3.webp'']"
proof -
  let ?s = "\<lparr>fs_dir = [[''d'', ''a.cbz''] \<mapsto> 0], fs_inode = [0 \<mapsto> ZipFile [] True],
              fs_next = 1, fs_fails = (\<lambda>_. False)\<rparr>"
  have h1: "no_faults ?s" by (simp add: no_faults_def)
  have h2: "encoder_total (\<lambda>b w h. Inr b)" by (simp add: encoder_total_def)
  have h4: "extract_file_info (archive_path (ArchiveCleaner_new [''d'', ''a.cbz''])) = Ok (''a'', [''d''])"
    by (simp add: extract_file_info_def ArchiveCleaner_new_def path_file_name_def path_parent_def
                  rsplit_once_def)
  have h5: "heights_sum [new_rgba8 2 3000] < 2 ^ 32" by (simp add: new_rgba8_def)
  have h6: "height (min_image_size (ArchiveCleaner_new [''d'', ''a.cbz''])) \<noteq> 0"
    by (simp add: ArchiveCleaner_new_def IMAGE_SIZE_def)
  have n: "map webp_name [1..<Suc (unat (num_slices (total_height [new_rgba8 2 3000])
             (height (min_image_size (ArchiveCleaner_new [''d'', ''a.cbz''])))))]
           = [''1.webp'', ''2.webp'', ''3.webp'']"
    by code_simp
  show ?thesis using strip_entry_names [OF h1 h2 nearest_resize_ok h4 h5 h6] n by metis
qed

lemma num_slices_wraps:
  assumes "4294966272 < unat tot"
  shows "num_slices tot 1024 = 0"
proof -
  define d where "d = unat tot + 1023 - 4294967296"
  have b: "unat tot < 4294967296" by (rule unat_u32_less)
  have eq: "unat tot + 1023 = d + 4294967296" using assms unfolding d_def by linarith
  have d: "d < 1023" using b unfolding d_def by linarith
  have "unat (tot + 1023) = (unat tot + 1023) mod 4294967296"
    by (simp add: unat_word_ariths)
  also have "\<dots> = d" unfolding eq using d by simp
  finally have "unat (tot + 1023) < 1024" using d by linarith
  then have "unat ((tot + 1023) div 1024) = 0" by (simp add: unat_div)
  then have "(tot + 1023) div 1024 = 0" by (simp only: unat_eq_zero)
  moreover have "tot + 1024 - 1 = tot + 1023" by simp
  ultimately show ?thesis by (simp only: num_slices_def)
qed

text \<open>
  C15 (bounds): \<open>num_slices\<close> is computed in \<open>u32\<close>. When the pages add up to more
  than \<open>2^32 - 1024\<close> rows (and less than \<open>2^32\<close>, so the canvas itself fits),
  \<open>total_height + slice_height - 1\<close> wraps, \<open>num_slices\<close> is 0, and the strip pass
  returns \<open>Ok\<close> after replacing the archive by a container with no entry at all.
\<close>

theorem tall_canvas_writes_no_band:
  assumes "no_faults s" and "encoder_total enc" and "resampler_ok resize"
    and "extract_file_info p = Ok (name, dir_path)"
    and "4294966272 < heights_sum images" and "heights_sum images < 2 ^ 32"
  shows "\<exists>ino s'. process_manhwa_images resize enc (ArchiveCleaner_new p) images s = (Ok (), s')
           \<and> fs_dir s' (final_archive_path name dir_path) = Some ino
           \<and> fs_dir s' (temp_archive_path name dir_path) = None
           \<and> fs_inode s' ino = Some (ZipFile [] True)"
proof -
  have e: "extract_file_info (archive_path (ArchiveCleaner_new p)) = Ok (name, dir_path)"
    using assms(4) by (simp add: ArchiveCleaner_new_def)
  have sh: "height (min_image_size (ArchiveCleaner_new p)) = 1024"
    by (simp add: ArchiveCleaner_new_def IMAGE_SIZE_def)
  have "unat (total_height images) = heights_sum images" using assms(6) by (rule unat_total_height)
  then have "num_slices (total_height images) 1024 = 0" using assms(5) by (intro num_slices_wraps) simp
  then have nil: "strip_entries resize enc (ArchiveCleaner_new p) images = []"
    using sh by (simp add: strip_entries_def)
  have "\<not> fs_fails s (Finish (temp_archive_path name dir_path))"
    using assms(1) by (simp add: no_faults_def)
  then show ?thesis
    using process_manhwa_images_result [OF no_faults_writes_succeed [OF assms(1)] assms(2,3) e assms(6)]
          sh nil by auto
qed

theorem tall_canvas_writes_no_band_witness:
  "\<exists>ino s'. process_manhwa_images nearest_resize (\<lambda>b w h. Inr b)
           (ArchiveCleaner_new [''d'', ''a.cbz'']) [new_rgba8 1 4294967295]
           \<lparr>fs_dir = [[''d'', ''a.cbz''] \<mapsto> 0], fs_inode = [0 \<mapsto> ZipFile [] True],
            fs_next = 1, fs_fails = (\<lambda>_. False)\<rparr> = (Ok (), s')
        \<and> fs_dir s' (final_archive_path ''a'' [''d'']) = Some ino
        \<and> fs_dir s' (temp_archive_path ''a'' [''d'']) = None
        \<and> fs_inode s' ino = Some (ZipFile [] True)"
proof -
  let ?s = "\<lparr>fs_dir = [[''d'', ''a.cbz''] \<mapsto> 0], fs_inode = [0 \<mapsto> ZipFile [] True],
              fs_next = 1, fs_fails = (\<lambda>_. False)\<rparr>"
  have h1: "no_faults ?s" by (simp add: no_faults_def)
  have h2: "encoder_total (\<lambda>b w h. Inr b)" by (simp add: encoder_total_def)
  have h4: "extract_file_info [''d'', ''a.cbz''] = Ok (''a'', [''d''])"
    by (simp add: extract_file_info_def path_file_name_def path_parent_def rsplit_once_def)
  have h5: "4294966272 < heights_sum [new_rgba8 1 4294967295]" by (simp add: new_rgba8_def)
  have h6: "heights_sum [new_rgba8 1 4294967295] < 2 ^ 32" by (simp add: new_rgba8_def)
  show ?thesis using tall_canvas_writes_no_band [OF h1 h2 nearest_resize_ok h4 h5 h6] .
qed

text \<open>
  C16 (error): \<open>fs::rename\<close> publishes the container before \<open>new_zip\<close> is dropped, and
  the drop writes the central directory and swallows its error. If only that write
  fails, the pass still returns \<open>Ok\<close>, and the container now at \<open><name>.cbz\<close> is
  unfinished: \<open>ZipArchive::new\<close> refuses it.
\<close>

theorem finish_after_rename:
  assumes "fs_fails s = (\<lambda>op. op = Finish (temp_archive_path name dir_path))"
    and "encoder_total enc" and "resampler_ok resize"
    and "extract_file_info (archive_path c) = Ok (name, dir_path)"
    and "heights_sum images < 2 ^ 32"
    and "slices_fit (total_height images) (height (min_image_size c))"
  shows "\<exists>ino s'. process_manhwa_images resize enc c images s = (Ok (), s')
           \<and> fs_dir s' (final_archive_path name dir_path) = Some ino
           \<and> fst (zip_archive_new ino s') = Err (ZipErr ''invalid Zip archive'')"
proof -
  have ws: "writes_succeed s" using assms(1) by (simp add: writes_succeed_def)
  obtain ino s' where run: "process_manhwa_images resize enc c images s = (Ok (), s')"
      and d: "fs_dir s' (final_archive_path name dir_path) = Some ino"
      and zc: "zip_contents (fs_inode s' ino) = strip_entries resize enc c images"
      and fin: "fs_inode s' ino = Some (ZipFile (strip_entries resize enc c images) True)
                \<longleftrightarrow> \<not> fs_fails s (Finish (temp_archive_path name dir_path))"
    using process_manhwa_images_result [OF ws assms(2-5) slices_fit_nonzero [OF assms(6)]] by blast
  have "fs_inode s' ino \<noteq> Some (ZipFile es True)" for es
    using fin zc assms(1) by (auto simp: zip_contents_def)
  then have "fst (zip_archive_new ino s') = Err (ZipErr ''invalid Zip archive'')"
    by (auto simp: zip_archive_new_def split: option.splits fobj.splits bool.splits)
  with run d show ?thesis by blast
qed

theorem finish_after_rename_witness:
  "fs_fails \<lparr>fs_dir = [[''d'', ''a.cbz''] \<mapsto> 0], fs_inode = [0 \<mapsto> ZipFile [] True], fs_next = 1,
             fs_fails = (\<lambda>op. op = Finish (temp_archive_path ''a'' [''d'']))\<rparr>
     = (\<lambda>op. op = Finish (temp_archive_path ''a'' [''d'']))
   \<and> encoder_total (\<lambda>b w h. Inr b) \<and> resampler_ok nearest_resize
   \<and> extract_file_info (archive_path (ArchiveCleaner_new [''d'', ''a.cbz''])) = Ok (''a'', [''d''])
   \<and> heights_sum [new_rgba8 2 3000] < 2 ^ 32
   \<and> slices_fit (total_height [new_rgba8 2 3000])
        (height (min_image_size (ArchiveCleaner_new [''d'', ''a.cbz''])))
   \<and> (\<exists>ino s'. process_manhwa_images nearest_resize (\<lambda>b w h. Inr b)
           (ArchiveCleaner_new [''d'', ''a.cbz'']) [new_rgba8 2 3000]
           \<lparr>fs_dir = [[''d'', ''a.cbz''] \<mapsto> 0], fs_inode = [0 \<mapsto> ZipFile [] True], fs_next = 1,
            fs_fails = (\<lambda>op. op = Finish (temp_archive_path ''a'' [''d'']))\<rparr> = (Ok (), s')
        \<and> fs_dir s' (final_archive_path ''a'' [''d'']) = Some ino
        \<and> fst (zip_archive_new ino s') = Err (ZipErr ''invalid Zip archive''))"
proof -
  let ?s = "\<lparr>fs_dir = [[''d'', ''a.cbz''] \<mapsto> 0], fs_inode = [0 \<mapsto> ZipFile [] True], fs_next = 1,
             fs_fails = (\<lambda>op. op = Finish (temp_archive_path ''a'' [''d'']))\<rparr>"
  have h1: "fs_fails ?s = (\<lambda>op. op = Finish (temp_archive_path ''a'' [''d'']))" by simp
  have h2: "encoder_total (\<lambda>b w h. Inr b)" by (simp add: encoder_total_def)
  have h4: "extract_file_info (archive_path (ArchiveCleaner_new [''d'', ''a.cbz''])) = Ok (''a'', [''d''])"
    by (simp add: extract_file_info_def ArchiveCleaner_new_def path_file_name_def path_parent_def
                  rsplit_once_def)
  have h5: "heights_sum [new_rgba8 2 3000] < 2 ^ 32" by (simp add: new_rgba8_def)
  have h6: "slices_fit (total_height [new_rgba8 2 3000])
              (height (min_image_size (ArchiveCleaner_new [''d'', ''a.cbz''])))"
    by (simp add: slices_fit_def total_height_def new_rgba8_def ArchiveCleaner_new_def IMAGE_SIZE_def)
  show ?thesis
    using h1 h2 nearest_resize_ok h4 h5 h6
          finish_after_rename [OF h1 h2 nearest_resize_ok h4 h5 h6] by blast
qed

end
