(* ===== verification/Archive_Reader.thy ===== *)
theory Archive_Reader
  imports Classifier Archive_Writer
begin

text \<open>
  Archive Reader (src/src/archive_cleaner.rs): \<open>is_image\<close>, the suffix filter on entry
  names, and \<open>read_images_from_archive\<close>, which opens the container, enumerates its
  entries in container order and decodes the image entries. Decoding
  (\<open>image::load_from_memory\<close>) is an interface: a decoder returns an image or fails,
  and a failed decode drops the entry. The reader never changes the file system.
\<close>

section \<open>\<open>is_image\<close>\<close>

definition is_image :: "string \<Rightarrow> bool" where
  "is_image file_name \<longleftrightarrow>
     ends_with file_name ''.webp'' \<or> ends_with file_name ''.jpg''
     \<or> ends_with file_name ''.jpeg'' \<or> ends_with file_name ''.png''"

section \<open>\<open>read_images_from_archive\<close>\<close>

type_synonym decoder = "bytes \<Rightarrow> image option"

text \<open>
  The loop \<open>for i in 0..archive.len()\<close>: \<open>archive.by_index(i)?\<close>, then for an image
  entry \<open>read_to_end(..)?\<close> and \<open>if let Ok(img) = load_from_memory(..)\<close> push it.
  Entry \<open>i\<close> of the container is the head of the remaining list.
\<close>

fun read_entries :: "decoder \<Rightarrow> path \<Rightarrow> zip_entry list \<Rightarrow> nat \<Rightarrow> image list \<Rightarrow> image list st" where
  "read_entries dec p [] i images = st_return images"
| "read_entries dec p (e # es) i images =
     (\<lambda>s. if fs_fails s (ByIndex p i) then (Err (OsError (ByIndex p i)), s)
          else if is_image (entry_name e) then
            (if fs_fails s (ReadEntry p i) then (Err (OsError (ReadEntry p i)), s)
             else case dec (entry_data e) of
                    Some img \<Rightarrow> read_entries dec p es (Suc i) (images @ [img]) s
                  | None \<Rightarrow> read_entries dec p es (Suc i) images s)
          else read_entries dec p es (Suc i) images s)"

definition read_images_from_archive :: "decoder \<Rightarrow> archive_cleaner \<Rightarrow> image list st" where
  "read_images_from_archive dec c =
     st_bind (file_open (archive_path c))
       (\<lambda>archive_file. st_bind (zip_archive_new archive_file)
          (\<lambda>archive. read_entries dec (archive_path c) archive 0 []))"

section \<open>Specification\<close>

text \<open>The images the reader promises: the decodable image entries, in container order.\<close>

definition decoded_images :: "decoder \<Rightarrow> zip_entry list \<Rightarrow> image list" where
  "decoded_images dec es =
     List.map_filter (\<lambda>e. if is_image (entry_name e) then dec (entry_data e) else None) es"

text \<open>Every read succeeds.\<close>

definition reads_succeed :: "fs \<Rightarrow> bool" where
  "reads_succeed s \<longleftrightarrow> (\<forall>p i. \<not> fs_fails s (Open p) \<and> \<not> fs_fails s (ByIndex p i)
                                  \<and> \<not> fs_fails s (ReadEntry p i))"

section \<open>Lemmas\<close>

lemma decoded_images_simps [simp]:
  "decoded_images dec [] = []"
  "decoded_images dec (e # es) =
     (if is_image (entry_name e) then (case dec (entry_data e) of Some img \<Rightarrow> [img] | None \<Rightarrow> [])
      else []) @ decoded_images dec es"
  by (simp_all add: decoded_images_def List.map_filter_def split: option.split)

lemma writes_succeed_reads_succeed [simp]: "writes_succeed s \<Longrightarrow> reads_succeed s"
  by (simp add: reads_succeed_def)

text \<open>The reader only reads: whatever happens, the state is unchanged.\<close>

lemma read_entries_state: "snd (read_entries dec p es i images s) = s"
  by (induction es arbitrary: i images)
     (auto simp: st_return_def split: option.split)

lemma read_entries_ok:
  assumes "reads_succeed s"
  shows "read_entries dec p es i images s = (Ok (images @ decoded_images dec es), s)"
  using assms
  by (induction es arbitrary: i images)
     (auto simp: st_return_def reads_succeed_def split: option.split)

lemma read_images_state: "snd (read_images_from_archive dec c s) = s"
  using read_entries_state [of dec "archive_path c" _ 0 "[]" s]
  by (auto simp: read_images_from_archive_def st_bind_def file_open_def zip_archive_new_def
           split: option.split fobj.split bool.split prod.split outcome.split)

lemma read_images_ok:
  assumes "reads_succeed s" and "fs_dir s (archive_path c) = Some ino"
    and "fs_inode s ino = Some (ZipFile es True)"
  shows "read_images_from_archive dec c s = (Ok (decoded_images dec es), s)"
  using assms read_entries_ok [OF assms(1)]
  by (simp add: read_images_from_archive_def st_bind_def file_open_def zip_archive_new_def
                reads_succeed_def)

lemma read_images_unfinished:
  assumes "\<not> fs_fails s (Open (archive_path c))" and "fs_dir s (archive_path c) = Some ino"
    and "fs_inode s ino = Some (ZipFile es False)"
  shows "read_images_from_archive dec c s = (Err (ZipErr ''invalid Zip archive''), s)"
  using assms
  by (simp add: read_images_from_archive_def st_bind_def file_open_def zip_archive_new_def)

section \<open>Properties\<close>

text \<open>
  C25 (functional): reading a finished container when no read fails yields exactly the
  decodable image entries, in container order, and leaves the file system as it was.
\<close>

theorem read_images_correct:
  assumes "reads_succeed s" and "fs_dir s (archive_path c) = Some ino"
    and "fs_inode s ino = Some (ZipFile es True)"
  shows "read_images_from_archive dec c s
           = (Ok (List.map_filter (\<lambda>e. if is_image (entry_name e) then dec (entry_data e) else None) es), s)"
  using read_images_ok [OF assms] by (simp add: decoded_images_def)

theorem read_images_correct_witness:
  "reads_succeed \<lparr>fs_dir = [[''a.cbz''] \<mapsto> 0],
                  fs_inode = [0 \<mapsto> ZipFile [\<lparr>entry_name = ''1.png'', entry_method = Stored, entry_data = []\<rparr>,
                                              \<lparr>entry_name = ''info.txt'', entry_method = Stored, entry_data = []\<rparr>] True],
                  fs_next = 1, fs_fails = (\<lambda>_. False)\<rparr>
   \<and> fst (read_images_from_archive (\<lambda>b. Some (new_rgba8 1 1)) \<lparr>archive_type = Manga,
          min_image_size = \<lparr>width = 1024, height = 1024\<rparr>, archive_path = [''a.cbz'']\<rparr>
        \<lparr>fs_dir = [[''a.cbz''] \<mapsto> 0],
         fs_inode = [0 \<mapsto> ZipFile [\<lparr>entry_name = ''1.png'', entry_method = Stored, entry_data = []\<rparr>,
                                     \<lparr>entry_name = ''info.txt'', entry_method = Stored, entry_data = []\<rparr>] True],
         fs_next = 1, fs_fails = (\<lambda>_. False)\<rparr>) = Ok [new_rgba8 1 1]"
proof -
  let ?es = "[\<lparr>entry_name = ''1.png'', entry_method = Stored, entry_data = []\<rparr>,
              \<lparr>entry_name = ''info.txt'', entry_method = Stored, entry_data = ([] :: bytes)\<rparr>]"
  let ?s = "\<lparr>fs_dir = [[''a.cbz''] \<mapsto> 0], fs_inode = [0 \<mapsto> ZipFile ?es True], fs_next = 1, fs_fails = (\<lambda>_. False)\<rparr>"
  let ?c = "\<lparr>archive_type = Manga, min_image_size = \<lparr>width = 1024, height = 1024\<rparr>, archive_path = [''a.cbz'']\<rparr>"
  have h1: "reads_succeed ?s" by (simp add: reads_succeed_def)
  have h2: "fs_dir ?s (archive_path ?c) = Some 0" by simp
  have h3: "fs_inode ?s 0 = Some (ZipFile ?es True)" by simp
  have i: "is_image ''1.png''" "\<not> is_image ''info.txt''" by (simp_all add: is_image_def ends_with_def)
  show ?thesis
    using h1 read_images_correct [OF h1 h2 h3, of "\<lambda>b. Some (new_rgba8 1 1)"] i
    by (simp add: List.map_filter_def)
qed

text \<open>
  A page that fails to decode is dropped and the pages after it move up. In
  a container holding \<open>1.jpg\<close> (undecodable) and \<open>2.jpg\<close>, the reader returns one image,
  and the paged pass names the page of \<open>2.jpg\<close> \<open>1.webp\<close>: the ordinal of an output entry
  is its position among the decoded pages, not in the container.
\<close>

theorem undecodable_entry_shifts_names:
  "read_images_from_archive (\<lambda>b. if b = [] then None else Some (new_rgba8 2000 2000))
      \<lparr>archive_type = Manga, min_image_size = \<lparr>width = 1024, height = 1024\<rparr>, archive_path = [''a.cbz'']\<rparr>
      \<lparr>fs_dir = [[''a.cbz''] \<mapsto> 0],
       fs_inode = [0 \<mapsto> ZipFile [\<lparr>entry_name = ''1.jpg'', entry_method = Stored, entry_data = []\<rparr>,
                                   \<lparr>entry_name = ''2.jpg'', entry_method = Stored, entry_data = [1]\<rparr>] True],
       fs_next = 1, fs_fails = (\<lambda>_. False)\<rparr>
   = (Ok [new_rgba8 2000 2000],
      \<lparr>fs_dir = [[''a.cbz''] \<mapsto> 0],
       fs_inode = [0 \<mapsto> ZipFile [\<lparr>entry_name = ''1.jpg'', entry_method = Stored, entry_data = []\<rparr>,
                                   \<lparr>entry_name = ''2.jpg'', entry_method = Stored, entry_data = [1]\<rparr>] True],
       fs_next = 1, fs_fails = (\<lambda>_. False)\<rparr>)
   \<and> webp_name (Suc 0) = ''1.webp''"
proof -
  have i: "is_image ''1.jpg''" "is_image ''2.jpg''" by (simp_all add: is_image_def ends_with_def)
  show ?thesis
    using i by (simp add: read_images_from_archive_def st_bind_def st_return_def file_open_def
                          zip_archive_new_def webp_name_def names_simps)
qed

text \<open>
  The suffix test is case-sensitive. Entries named \<open>P01.JPG\<close> or
  \<open>P02.Png\<close> are not images for the reader and are left out of the pass, while
  \<open>p01.jpg\<close> is read.
\<close>

theorem is_image_case_sensitive:
  "\<not> is_image ''P01.JPG'' \<and> \<not> is_image ''P02.Png'' \<and> is_image ''p01.jpg''
   \<and> decoded_images dec [\<lparr>entry_name = ''P01.JPG'', entry_method = Stored, entry_data = d\<rparr>] = []"
proof -
  have i: "\<not> is_image ''P01.JPG''" "\<not> is_image ''P02.Png''" "is_image ''p01.jpg''"
    by (simp_all add: is_image_def ends_with_def)
  then show ?thesis by simp
qed

end
