(* ===== verification/Paged_Transform.thy ===== *)
theory Paged_Transform
  imports Complex_Main "HOL-Library.Multiset" Classifier Archive_Writer
begin

text \<open>
  Paged Transform (src/src/archive_cleaner.rs): each page is shrunk into the
  \<open>min_image_size\<close> box with \<open>DynamicImage::thumbnail\<close>, encoded and written as
  \<open><index + 1>.webp\<close> by one thread per page (\<open>process_image\<close>,
  \<open>process_images_threaded\<close>), all threads sharing one \<open>Mutex<ZipWriter>\<close>;
  \<open>process_non_manhwa_images\<close> then renames the container. The thread interleavings
  are an inductive step relation; every complete run equals the sequential run in the
  order the threads took the lock.
\<close>

section \<open>Thumbnail dimensions\<close>

text \<open>
  \<open>thumbnail(nwidth, nheight)\<close> computes its target size with the image crate's
  \<open>resize_dimensions(width, height, nwidth, nheight, fill = false)\<close> and then resamples
  to it (\<open>thumbnail_exact\<close>). The ratios are \<open>f64\<close> in the library and exact rationals
  here; \<open>round\<close> rounds half away from zero, which on non-negative values is
  \<open>floor (x + 1/2)\<close>, the \<open>round\<close> of HOL. A zero width gives an infinite ratio in
  \<open>f64\<close>, which \<open>min\<close> discards: the case split on zero dimensions says so.
\<close>

definition resize_dimensions :: "u32 \<Rightarrow> u32 \<Rightarrow> u32 \<Rightarrow> u32 \<Rightarrow> u32 \<times> u32" where
  "resize_dimensions iw ih nw_bound nh_bound =
     (let wratio = of_nat (unat nw_bound) / of_nat (unat iw) :: rat;
          hratio = of_nat (unat nh_bound) / of_nat (unat ih);
          ratio = (if iw = 0 then hratio else if ih = 0 then wratio else min wratio hratio);
          nw = max (nat (round (of_nat (unat iw) * ratio))) 1;
          nh = max (nat (round (of_nat (unat ih) * ratio))) 1
      in if 4294967295 < nw
         then (4294967295, of_nat (max (nat (round (of_nat (unat ih) * (4294967295 / of_nat (unat iw) :: rat)))) 1))
         else if 4294967295 < nh
         then (of_nat (max (nat (round (of_nat (unat iw) * (4294967295 / of_nat (unat ih) :: rat)))) 1), 4294967295)
         else (of_nat nw, of_nat nh))"

lemma round_le_nat:
  fixes x :: rat
  assumes "x \<le> of_nat n"
  shows "nat (round x) \<le> n"
proof -
  have "round x \<le> round (of_nat n :: rat)" using assms by (rule round_mono)
  then show ?thesis by simp
qed

lemma scaled_le:
  fixes a b n m :: nat
  assumes "0 < a" 
  shows "of_nat a * min (of_nat n / of_nat a) r \<le> (of_nat n :: rat)"
proof -
  have "of_nat a * min (of_nat n / of_nat a) r \<le> of_nat a * (of_nat n / of_nat a)"
    by (intro mult_left_mono) simp_all
  also have "\<dots> = of_nat n" using assms by simp
  finally show ?thesis .
qed

lemma round_max_one:
  fixes x :: rat
  assumes "0 \<le> x"
  shows "\<bar>of_nat (max (nat (round x)) 1) - x\<bar> \<le> 1"
proof (cases "1 \<le> round x")
  case True
  then have "of_nat (max (nat (round x)) 1) = (of_int (round x) :: rat)" by simp
  then show ?thesis using of_int_round_abs_le [of x] by simp
next
  case False
  have "0 \<le> round x" using round_mono [OF assms] by simp
  with False have r0: "round x = 0" by simp
  have "x \<le> 1/2" using r0 of_int_round_abs_le [of x] assms by linarith
  then show ?thesis using r0 assms by simp
qed

lemma exact_scale:
  fixes a n :: nat
  assumes "0 < a"
  shows "max (nat (round (of_nat a * (of_nat n / of_nat a :: rat)))) 1 = max n 1"
  using assms by simp

lemma scale_back:
  fixes a b n :: nat and y :: rat
  assumes "0 < a"
  shows "(y - of_nat b * (of_nat n / of_nat a)) * of_nat a = y * of_nat a - of_nat b * of_nat n"
proof -
  have "of_nat b * (of_nat n / of_nat a) * of_nat a = (of_nat b * of_nat n :: rat)"
    using assms by simp
  then show ?thesis by (simp add: left_diff_distrib)
qed

lemma scaled_within_one:
  fixes a b n :: nat
  assumes "0 < a"
  shows "\<bar>of_nat (max (nat (round (of_nat b * (of_nat n / of_nat a :: rat)))) 1) * of_nat a
            - of_nat b * of_nat n\<bar> \<le> (of_nat a :: rat)"
proof -
  let ?x = "of_nat b * (of_nat n / of_nat a :: rat)"
  have "\<bar>of_nat (max (nat (round ?x)) 1) - ?x\<bar> \<le> 1" by (rule round_max_one) simp
  then have "\<bar>of_nat (max (nat (round ?x)) 1) - ?x\<bar> * of_nat a \<le> of_nat a"
    using assms by simp
  moreover have "\<bar>of_nat (max (nat (round ?x)) 1) - ?x\<bar> * of_nat a
                 = \<bar>of_nat (max (nat (round ?x)) 1) * of_nat a - of_nat b * of_nat n\<bar>"
    unfolding scale_back [OF assms, symmetric] abs_mult by simp
  ultimately show ?thesis by simp
qed

lemma resize_dimensions_unat:
  assumes "0 < unat iw" "0 < unat ih" "0 < unat nw_bound" "0 < unat nh_bound"
  defines "r \<equiv> min (of_nat (unat nw_bound) / of_nat (unat iw)) (of_nat (unat nh_bound) / of_nat (unat ih) :: rat)"
  shows "unat (fst (resize_dimensions iw ih nw_bound nh_bound)) = max (nat (round (of_nat (unat iw) * r))) 1
       \<and> unat (snd (resize_dimensions iw ih nw_bound nh_bound)) = max (nat (round (of_nat (unat ih) * r))) 1"
proof -
  let ?wr = "of_nat (unat nw_bound) / of_nat (unat iw) :: rat"
  let ?hr = "of_nat (unat nh_bound) / of_nat (unat ih) :: rat"
  have w0: "iw \<noteq> 0" "ih \<noteq> 0" using assms(1,2) by auto
  have a: "of_nat (unat iw) * min ?wr ?hr \<le> of_nat (unat nw_bound)"
    using assms(1) by (rule scaled_le)
  have b: "of_nat (unat ih) * min ?wr ?hr \<le> of_nat (unat nh_bound)"
    using scaled_le [OF assms(2), of "unat nh_bound" ?wr] by (simp add: min.commute)
  let ?nw = "max (nat (round (of_nat (unat iw) * min ?wr ?hr))) 1"
  let ?nh = "max (nat (round (of_nat (unat ih) * min ?wr ?hr))) 1"
  have nw: "?nw \<le> unat nw_bound" using round_le_nat [OF a] assms(3) by simp
  have nh: "?nh \<le> unat nh_bound" using round_le_nat [OF b] assms(4) by simp
  have nw32: "?nw < 4294967296" and nh32: "?nh < 4294967296"
    using nw nh unat_u32_less [of nw_bound] unat_u32_less [of nh_bound] by linarith+
  have nw32': "\<not> 4294967295 < ?nw" and nh32': "\<not> 4294967295 < ?nh"
    using nw32 nh32 by linarith+
  have r: "resize_dimensions iw ih nw_bound nh_bound = (of_nat ?nw, of_nat ?nh)"
    unfolding resize_dimensions_def Let_def if_not_P [OF w0(1)] if_not_P [OF w0(2)]
              if_not_P [OF nw32'] if_not_P [OF nh32'] ..
  show ?thesis
    using nw32 nh32 unfolding r r_def by (simp add: unat_of_nat)
qed

text \<open>The size \<open>thumbnail\<close> picks for a non-empty image lies inside the box.\<close>

lemma resize_dimensions_bounds:
  assumes "0 < unat iw" "0 < unat ih" "0 < unat nw_bound" "0 < unat nh_bound"
  shows "fst (resize_dimensions iw ih nw_bound nh_bound) \<le> nw_bound
       \<and> snd (resize_dimensions iw ih nw_bound nh_bound) \<le> nh_bound
       \<and> 0 < fst (resize_dimensions iw ih nw_bound nh_bound)
       \<and> 0 < snd (resize_dimensions iw ih nw_bound nh_bound)"
proof -
  let ?r = "min (of_nat (unat nw_bound) / of_nat (unat iw)) (of_nat (unat nh_bound) / of_nat (unat ih) :: rat)"
  have a: "of_nat (unat iw) * ?r \<le> of_nat (unat nw_bound)"
    using assms(1) by (rule scaled_le)
  have b: "of_nat (unat ih) * ?r \<le> of_nat (unat nh_bound)"
    using scaled_le [OF assms(2), of "unat nh_bound" "of_nat (unat nw_bound) / of_nat (unat iw)"]
    by (simp add: min.commute)
  note u = resize_dimensions_unat [OF assms]
  show ?thesis
    unfolding word_le_nat_alt word_less_nat_alt
    using u round_le_nat [OF a] round_le_nat [OF b] assms(3,4) by (simp add: less_max_iff_disj)
qed

text \<open>
  One side of the result is the bound, and the other is within one pixel of the
  proportional size: \<open>nh * w\<close> differs from \<open>h * nw\<close> by at most \<open>w\<close> (or symmetrically).
\<close>

lemma resize_dimensions_aspect:
  assumes "0 < unat iw" "0 < unat ih" "0 < unat nw_bound" "0 < unat nh_bound"
  shows "(unat (fst (resize_dimensions iw ih nw_bound nh_bound)) = unat nw_bound
          \<and> \<bar>of_nat (unat (snd (resize_dimensions iw ih nw_bound nh_bound))) * of_nat (unat iw)
               - of_nat (unat ih) * of_nat (unat nw_bound)\<bar> \<le> (of_nat (unat iw) :: rat))
       \<or> (unat (snd (resize_dimensions iw ih nw_bound nh_bound)) = unat nh_bound
          \<and> \<bar>of_nat (unat (fst (resize_dimensions iw ih nw_bound nh_bound))) * of_nat (unat ih)
               - of_nat (unat iw) * of_nat (unat nh_bound)\<bar> \<le> (of_nat (unat ih) :: rat))"
proof -
  let ?wr = "of_nat (unat nw_bound) / of_nat (unat iw) :: rat"
  let ?hr = "of_nat (unat nh_bound) / of_nat (unat ih) :: rat"
  let ?R = "resize_dimensions iw ih nw_bound nh_bound"
  note u = resize_dimensions_unat [OF assms]
  show ?thesis
  proof (cases "?wr \<le> ?hr")
    case True
    then have m: "min ?wr ?hr = ?wr" by (simp add: min_def)
    have f: "unat (fst ?R) = unat nw_bound"
      using u assms(3) unfolding m exact_scale [OF assms(1)] by simp
    have s: "unat (snd ?R) = max (nat (round (of_nat (unat ih) * ?wr))) 1" using u unfolding m by simp
    show ?thesis using scaled_within_one [OF assms(1), of "unat ih" "unat nw_bound"] f s by simp
  next
    case False
    then have m: "min ?wr ?hr = ?hr" by (simp add: min_def)
    have s: "unat (snd ?R) = unat nh_bound"
      using u assms(4) unfolding m exact_scale [OF assms(2)] by simp
    have f: "unat (fst ?R) = max (nat (round (of_nat (unat iw) * ?hr))) 1" using u unfolding m by simp
    show ?thesis using scaled_within_one [OF assms(2), of "unat iw" "unat nh_bound"] f s by simp
  qed
qed

text \<open>\<open>thumbnail\<close>: resample to the size \<open>resize_dimensions\<close> picks.\<close>

definition thumbnail :: "resampler \<Rightarrow> image \<Rightarrow> u32 \<Rightarrow> u32 \<Rightarrow> image" where
  "thumbnail thumbnail_exact img nwidth nheight =
     (let (w2, h2) = resize_dimensions (img_width img) (img_height img) nwidth nheight
      in thumbnail_exact w2 h2 img)"

section \<open>The state shared by the worker threads\<close>

text \<open>
  A worker is waiting for the lock, holding it, or finished with the result of its
  closure. The pass state holds the file system, the \<open>ZipWriter\<close> inside the mutex,
  the mutex (its owner and its poison flag), each worker's program counter, the overall
  progress count (\<open>pb\<close>), each worker's spinner message, and, as a history variable,
  the order in which the workers took the lock.
\<close>

datatype worker_pc = Ready | Holding | Finished "unit outcome"

record paged_state =
  ps_fs :: fs
  ps_zip :: zip_writer
  ps_lock :: "nat option"
  ps_poisoned :: bool
  ps_pc :: "nat \<Rightarrow> worker_pc"
  ps_progress :: nat
  ps_spinner :: "nat \<Rightarrow> string"
  ps_log :: "nat list"

definition init_state :: "fs \<Rightarrow> zip_writer \<Rightarrow> paged_state" where
  "init_state s w =
     \<lparr>ps_fs = s, ps_zip = w, ps_lock = None, ps_poisoned = False, ps_pc = (\<lambda>_. Ready),
      ps_progress = 0, ps_spinner = (\<lambda>_. []), ps_log = []\<rparr>"

text \<open>\<open>pb.inc(1)\<close> and \<open>spinner.finish_with_message(msg)\<close>.\<close>

definition tick :: "nat \<Rightarrow> string \<Rightarrow> paged_state \<Rightarrow> paged_state" where
  "tick index msg st = st\<lparr>ps_progress := Suc (ps_progress st), ps_spinner := (ps_spinner st)(index := msg)\<rparr>"

section \<open>\<open>process_image\<close>\<close>

text \<open>
  The body of \<open>process_image\<close> after \<open>zip_writer.lock()\<close>: the criteria test (a page
  that fails it is counted, marked \<open>Skipped\<close> and reported as an error), the thumbnail,
  the encoding (an error is counted and marked \<open>Error\<close>), then
  \<open>start_file(format!("{}.webp", index + 1))?\<close> and \<open>write_all(..)?\<close>, whose errors
  return before \<open>pb.inc(1)\<close>, and on success the count and \<open>Done!\<close>.
\<close>

definition process_image ::
  "archive_cleaner \<Rightarrow> resampler \<Rightarrow> webp_encoder \<Rightarrow> nat \<Rightarrow> image \<Rightarrow> paged_state \<Rightarrow> unit outcome \<times> paged_state" where
  "process_image c thumbnail_exact enc index img st =
     (if \<not> image_meets_criteria c (img_width img) (img_height img)
      then (Err (OtherErr ''Processing error''), tick index ''Skipped'' st)
      else
        let resized_image = thumbnail thumbnail_exact img (width (min_image_size c)) (height (min_image_size c))
        in case encode_webp enc resized_image of
             Inl e \<Rightarrow> (Err (OtherErr e), tick index ''Error'' st)
           | Inr image_data \<Rightarrow>
               (case start_file (webp_name (index + 1)) Stored (ps_zip st) (ps_fs st) of
                  (Ok w1, s1) \<Rightarrow>
                    (case write_all image_data w1 s1 of
                       (Ok w2, s2) \<Rightarrow> (Ok (), tick index ''Done!'' (st\<lparr>ps_fs := s2, ps_zip := w2\<rparr>))
                     | (Err e, s2) \<Rightarrow> (Err e, st\<lparr>ps_fs := s2, ps_zip := w1\<rparr>)
                     | (Panic m, s2) \<Rightarrow> (Panic m, st\<lparr>ps_fs := s2, ps_zip := w1\<rparr>))
                | (Err e, s1) \<Rightarrow> (Err e, st\<lparr>ps_fs := s1\<rparr>)
                | (Panic m, s1) \<Rightarrow> (Panic m, st\<lparr>ps_fs := s1\<rparr>)))"

text \<open>\<open>Display\<close> of an error, as the closure prints it.\<close>

fun err_msg :: "io_error \<Rightarrow> string" where
  "err_msg (OsError op) = ''os error''"
| "err_msg (InvalidInput m) = m"
| "err_msg (ZipErr m) = m"
| "err_msg (OtherErr m) = m"
| "err_msg (Wrapped m e) = m @ '': '' @ err_msg e"

text \<open>
  The end of a worker's closure: record its result, and on \<open>Err(e)\<close> replace the
  spinner's message by \<open>format!("Error: {e}")\<close>.
\<close>

definition finish_worker :: "nat \<Rightarrow> unit outcome \<Rightarrow> paged_state \<Rightarrow> paged_state" where
  "finish_worker i r st =
     st\<lparr>ps_pc := (ps_pc st)(i := Finished r),
        ps_spinner := (case r of Err e \<Rightarrow> (ps_spinner st)(i := ''Error: '' @ err_msg e)
                               | _ \<Rightarrow> ps_spinner st)\<rparr>"

definition lock_error :: io_error where
  "lock_error = OtherErr ''Failed to lock ZipWriter: poisoned lock: another task failed inside''"

definition is_panic :: "unit outcome \<Rightarrow> bool" where
  "is_panic r \<longleftrightarrow> (case r of Panic _ \<Rightarrow> True | _ \<Rightarrow> False)"

section \<open>\<open>process_images_threaded\<close>: the interleavings\<close>

text \<open>
  \<open>zip_writer.lock()\<close> takes the free mutex. On a poisoned mutex it returns an error,
  which \<open>map_err\<close> turns into \<open>Failed to lock ZipWriter\<close>, the guard inside the error
  being dropped at once. The guard of a successful lock is dropped when
  \<open>process_image\<close> returns; a panic while it is held poisons the mutex.
\<close>

definition acquire :: "nat \<Rightarrow> paged_state \<Rightarrow> paged_state" where
  "acquire i st = st\<lparr>ps_lock := Some i, ps_pc := (ps_pc st)(i := Holding), ps_log := ps_log st @ [i]\<rparr>"

definition release :: "nat \<Rightarrow> unit outcome \<Rightarrow> paged_state \<Rightarrow> paged_state" where
  "release i r st = finish_worker i r (st\<lparr>ps_lock := None, ps_poisoned := (ps_poisoned st \<or> is_panic r)\<rparr>)"

definition lock_failed :: "nat \<Rightarrow> paged_state \<Rightarrow> paged_state" where
  "lock_failed i st = finish_worker i (Err lock_error) (st\<lparr>ps_log := ps_log st @ [i]\<rparr>)"

text \<open>One thread is spawned per page \<open>i < length images\<close>; any ready thread may move.\<close>

inductive paged_step ::
  "archive_cleaner \<Rightarrow> resampler \<Rightarrow> webp_encoder \<Rightarrow> image list \<Rightarrow> paged_state \<Rightarrow> paged_state \<Rightarrow> bool"
  for c thumbnail_exact enc images where
  lock_ok: "\<lbrakk>i < length images; ps_pc st i = Ready; ps_lock st = None; \<not> ps_poisoned st\<rbrakk>
            \<Longrightarrow> paged_step c thumbnail_exact enc images st (acquire i st)"
| lock_poisoned: "\<lbrakk>i < length images; ps_pc st i = Ready; ps_lock st = None; ps_poisoned st\<rbrakk>
            \<Longrightarrow> paged_step c thumbnail_exact enc images st (lock_failed i st)"
| body: "\<lbrakk>ps_pc st i = Holding; process_image c thumbnail_exact enc i (images ! i) st = (r, st')\<rbrakk>
            \<Longrightarrow> paged_step c thumbnail_exact enc images st (release i r st')"

inductive_cases paged_stepE: "paged_step c thumbnail_exact enc images st st'"

definition terminal :: "image list \<Rightarrow> paged_state \<Rightarrow> bool" where
  "terminal images st \<longleftrightarrow> (\<forall>i < length images. \<exists>r. ps_pc st i = Finished r)"

text \<open>
  A thread run from start to end without interruption, and the threads run one after
  another in a given order: the sequential semantics.
\<close>

definition worker_seq ::
  "archive_cleaner \<Rightarrow> resampler \<Rightarrow> webp_encoder \<Rightarrow> image list \<Rightarrow> nat \<Rightarrow> paged_state \<Rightarrow> paged_state" where
  "worker_seq c thumbnail_exact enc images i st =
     (if ps_poisoned st then lock_failed i st
      else case process_image c thumbnail_exact enc i (images ! i) (acquire i st) of
             (r, st') \<Rightarrow> release i r st')"

definition run_seq ::
  "archive_cleaner \<Rightarrow> resampler \<Rightarrow> webp_encoder \<Rightarrow> image list \<Rightarrow> nat list \<Rightarrow> paged_state \<Rightarrow> paged_state" where
  "run_seq c thumbnail_exact enc images order st = fold (worker_seq c thumbnail_exact enc images) order st"

section \<open>Lemmas on a single thread\<close>

lemma process_image_frame:
  assumes "process_image c t enc i img st = (r, st')"
  shows "ps_pc st' = ps_pc st \<and> ps_lock st' = ps_lock st \<and> ps_log st' = ps_log st
         \<and> ps_poisoned st' = ps_poisoned st \<and> \<not> is_panic r"
  using assms
  by (auto simp: process_image_def tick_def start_file_def write_all_def is_panic_def Let_def
           split: if_splits sum.splits list.splits)

lemma worker_seq_frame:
  assumes "\<not> ps_poisoned st"
  shows "ps_pc (worker_seq c t enc images i st) = (ps_pc st)(i := Finished (fst (process_image c t enc i (images ! i) (acquire i st))))
         \<and> ps_lock (worker_seq c t enc images i st) = None
         \<and> ps_log (worker_seq c t enc images i st) = ps_log st @ [i]
         \<and> \<not> ps_poisoned (worker_seq c t enc images i st)"
proof -
  obtain r st' where p: "process_image c t enc i (images ! i) (acquire i st) = (r, st')" by fastforce
  note f = process_image_frame [OF p]
  show ?thesis
    using assms p f by (simp add: worker_seq_def release_def finish_worker_def acquire_def)
qed

lemma run_seq_frame:
  assumes "\<not> ps_poisoned st" and "ps_lock st = None"
  shows "ps_lock (run_seq c t enc images xs st) = None
         \<and> ps_log (run_seq c t enc images xs st) = ps_log st @ xs
         \<and> \<not> ps_poisoned (run_seq c t enc images xs st)
         \<and> (\<forall>i. i \<notin> set xs \<longrightarrow> ps_pc (run_seq c t enc images xs st) i = ps_pc st i)
         \<and> (\<forall>i \<in> set xs. \<exists>r. ps_pc (run_seq c t enc images xs st) i = Finished r)"
  using assms
proof (induction xs arbitrary: st rule: rev_induct)
  case Nil
  then show ?case by (simp add: run_seq_def)
next
  case (snoc x xs)
  let ?st = "run_seq c t enc images xs st"
  have ih: "ps_lock ?st = None" "ps_log ?st = ps_log st @ xs" "\<not> ps_poisoned ?st"
    "\<forall>i. i \<notin> set xs \<longrightarrow> ps_pc ?st i = ps_pc st i"
    "\<forall>i \<in> set xs. \<exists>r. ps_pc ?st i = Finished r"
    using snoc by blast+
  have eq: "run_seq c t enc images (xs @ [x]) st = worker_seq c t enc images x ?st"
    by (simp add: run_seq_def)
  show ?case
    unfolding eq using worker_seq_frame [OF ih(3), of c t enc images x] ih by auto
qed

section \<open>Every interleaving is a sequential run\<close>

text \<open>
  The invariant of the reachable states: the lock history is a list of distinct
  threads; when the mutex is free the state is the sequential run of the history, and
  when thread \<open>i\<close> holds it the state is that run followed by \<open>i\<close>'s lock.
\<close>

definition paged_inv ::
  "archive_cleaner \<Rightarrow> resampler \<Rightarrow> webp_encoder \<Rightarrow> image list \<Rightarrow> paged_state \<Rightarrow> paged_state \<Rightarrow> bool" where
  "paged_inv c t enc images st0 st \<longleftrightarrow>
     distinct (ps_log st) \<and> set (ps_log st) \<subseteq> {..<length images}
     \<and> (case ps_lock st of
          None \<Rightarrow> st = run_seq c t enc images (ps_log st) st0
        | Some i \<Rightarrow> (\<exists>xs. ps_log st = xs @ [i] \<and> st = acquire i (run_seq c t enc images xs st0)))"

lemma init_state_simps [simp]:
  "ps_lock (init_state s w) = None" "ps_poisoned (init_state s w) = False"
  "ps_log (init_state s w) = []" "ps_pc (init_state s w) i = Ready"
  "ps_fs (init_state s w) = s" "ps_zip (init_state s w) = w" "ps_progress (init_state s w) = 0"
  by (simp_all add: init_state_def)

lemma run_seq_init:
  "ps_lock (run_seq c t enc images xs (init_state s w)) = None
   \<and> ps_log (run_seq c t enc images xs (init_state s w)) = xs
   \<and> \<not> ps_poisoned (run_seq c t enc images xs (init_state s w))
   \<and> (\<forall>i. i \<notin> set xs \<longrightarrow> ps_pc (run_seq c t enc images xs (init_state s w)) i = Ready)
   \<and> (\<forall>i \<in> set xs. \<exists>r. ps_pc (run_seq c t enc images xs (init_state s w)) i = Finished r)"
  using run_seq_frame [of "init_state s w" c t enc images xs] by simp

lemma paged_inv_init: "paged_inv c t enc images (init_state s w) (init_state s w)"
  by (simp add: paged_inv_def run_seq_def)

lemma paged_inv_step:
  assumes "paged_step c t enc images st st'" and "paged_inv c t enc images (init_state s w) st"
  shows "paged_inv c t enc images (init_state s w) st'"
  using assms(1)
proof (cases rule: paged_step.cases)
  case (lock_ok i)
  then have st: "st = run_seq c t enc images (ps_log st) (init_state s w)"
    using assms(2) by (simp add: paged_inv_def)
  have "i \<notin> set (ps_log st)"
    using run_seq_init [of c t enc images "ps_log st" s w] lock_ok(3) st by (metis worker_pc.distinct(3))
  then show ?thesis
    using lock_ok assms(2) st by (auto simp: paged_inv_def acquire_def)
next
  case (lock_poisoned i)
  then have "st = run_seq c t enc images (ps_log st) (init_state s w)"
    using assms(2) by (simp add: paged_inv_def)
  then show ?thesis using lock_poisoned(5) run_seq_init by metis
next
  case (body i r st1)
  show ?thesis
  proof (cases "ps_lock st")
    case None
    then have st: "st = run_seq c t enc images (ps_log st) (init_state s w)"
      using assms(2) by (simp add: paged_inv_def)
    then show ?thesis
      using run_seq_init [of c t enc images "ps_log st" s w] body(2)
      by (metis worker_pc.distinct(1) worker_pc.distinct(5))
  next
    case (Some j)
    then obtain xs where log: "ps_log st = xs @ [j]"
      and st: "st = acquire j (run_seq c t enc images xs (init_state s w))"
      using assms(2) by (auto simp: paged_inv_def)
    let ?q = "run_seq c t enc images xs (init_state s w)"
    have q: "ps_lock ?q = None" "\<not> ps_poisoned ?q" "ps_log ?q = xs"
      "\<forall>k. k \<notin> set xs \<longrightarrow> ps_pc ?q k = Ready"
      "\<forall>k \<in> set xs. \<exists>r. ps_pc ?q k = Finished r"
      using run_seq_init [of c t enc images xs s w] by blast+
    have ij: "i = j"
    proof (rule ccontr)
      assume "i \<noteq> j"
      then have "ps_pc ?q i = Holding" using body(2) st by (simp add: acquire_def)
      then show False using q(4,5) by (metis worker_pc.distinct(1) worker_pc.distinct(5))
    qed
    have f: "ps_log st1 = ps_log st" "ps_lock st1 = ps_lock st"
      using process_image_frame [OF body(3)] by simp_all
    have "release i r st1 = worker_seq c t enc images i ?q"
      using body(3) q(2) st ij by (simp add: worker_seq_def)
    then have "release i r st1 = run_seq c t enc images (xs @ [i]) (init_state s w)"
      by (simp add: run_seq_def)
    moreover have "ps_log (release i r st1) = xs @ [i]"
      using f log ij by (simp add: release_def finish_worker_def)
    moreover have "ps_lock (release i r st1) = None"
      by (simp add: release_def finish_worker_def)
    moreover have "distinct (xs @ [i]) \<and> set (xs @ [i]) \<subseteq> {..<length images}"
      using assms(2) log ij by (simp add: paged_inv_def)
    ultimately show ?thesis
      using body(1) by (simp add: paged_inv_def)
  qed
qed

lemma paged_reachable_inv:
  assumes "(paged_step c t enc images)\<^sup>*\<^sup>* (init_state s w) st"
  shows "paged_inv c t enc images (init_state s w) st"
  using assms
  by (induction rule: rtranclp_induct) (auto intro: paged_inv_init paged_inv_step)

lemma paged_inv_lock:
  assumes "paged_inv c t enc images (init_state s w) st"
  shows "(\<forall>i. ps_pc st i = Holding \<longleftrightarrow> ps_lock st = Some i) \<and> \<not> ps_poisoned st"
proof (cases "ps_lock st")
  case None
  then have st: "st = run_seq c t enc images (ps_log st) (init_state s w)"
    using assms by (simp add: paged_inv_def)
  show ?thesis
    using run_seq_init [of c t enc images "ps_log st" s w] None
    by (metis st worker_pc.distinct(1) worker_pc.distinct(5) option.distinct(1))
next
  case (Some j)
  then obtain xs where st: "st = acquire j (run_seq c t enc images xs (init_state s w))"
    using assms by (auto simp: paged_inv_def)
  have "\<forall>k. k \<noteq> j \<longrightarrow> ps_pc (run_seq c t enc images xs (init_state s w)) k \<noteq> Holding"
    using run_seq_init [of c t enc images xs s w] by (metis worker_pc.distinct(1) worker_pc.distinct(5))
  then show ?thesis
    using run_seq_init [of c t enc images xs s w] st Some by (auto simp: acquire_def)
qed

lemma paged_inv_terminal:
  assumes "paged_inv c t enc images (init_state s w) st" and "terminal images st"
  shows "ps_lock st = None \<and> set (ps_log st) = {..<length images}"
proof -
  have l: "ps_lock st = None"
  proof (rule ccontr)
    assume "ps_lock st \<noteq> None"
    then obtain j where j: "ps_lock st = Some j" by blast
    then obtain xs where "ps_log st = xs @ [j]" using assms(1) by (auto simp: paged_inv_def)
    then have "j < length images" using assms(1) by (auto simp: paged_inv_def)
    moreover have "ps_pc st j = Holding" using paged_inv_lock [OF assms(1)] j by blast
    ultimately show False using assms(2) by (auto simp: terminal_def)
  qed
  then have st: "st = run_seq c t enc images (ps_log st) (init_state s w)"
    using assms(1) by (simp add: paged_inv_def)
  have "i \<in> set (ps_log st)" if "i < length images" for i
    using assms(2) that run_seq_init [of c t enc images "ps_log st" s w] st
    by (metis terminal_def worker_pc.distinct(3))
  then show ?thesis using l assms(1) by (auto simp: paged_inv_def)
qed

lemma paged_steps_count:
  assumes "(paged_step c t enc images ^^ k) (init_state s w) st"
  shows "paged_inv c t enc images (init_state s w) st
         \<and> k = 2 * length (ps_log st) - (if ps_lock st = None then 0 else 1)
         \<and> (ps_lock st \<noteq> None \<longrightarrow> ps_log st \<noteq> [])"
  using assms
proof (induction k arbitrary: st)
  case 0
  then have "st = init_state s w" by simp
  then show ?case by (simp add: paged_inv_init)
next
  case (Suc k)
  then obtain st1 where k: "(paged_step c t enc images ^^ k) (init_state s w) st1"
    and step: "paged_step c t enc images st1 st" by auto
  note ih = Suc.IH [OF k]
  have inv: "paged_inv c t enc images (init_state s w) st" using paged_inv_step [OF step] ih by blast
  have np: "\<not> ps_poisoned st1" using paged_inv_lock ih by blast
  from step show ?case
  proof (cases rule: paged_step.cases)
    case (lock_ok i)
    then show ?thesis using ih inv by (simp add: acquire_def)
  next
    case (lock_poisoned i)
    then show ?thesis using np by simp
  next
    case (body i r st')
    have "ps_lock st1 = Some i" using paged_inv_lock ih body(2) by blast
    then show ?thesis
      using ih inv body process_image_frame [OF body(3)]
      by (simp add: release_def finish_worker_def)
  qed
qed

section \<open>What the threads write\<close>

text \<open>
  Page \<open>i\<close> is written when it meets the criteria and its thumbnail encodes; it is then
  the stored entry \<open><i + 1>.webp\<close>. The spinner of page \<open>i\<close> ends with
  \<open>page_message\<close>.
\<close>

definition page_image :: "archive_cleaner \<Rightarrow> resampler \<Rightarrow> image \<Rightarrow> image" where
  "page_image c t img = thumbnail t img (width (min_image_size c)) (height (min_image_size c))"

definition page_written :: "archive_cleaner \<Rightarrow> resampler \<Rightarrow> webp_encoder \<Rightarrow> image \<Rightarrow> bool" where
  "page_written c t enc img \<longleftrightarrow>
     image_meets_criteria c (img_width img) (img_height img) \<and> \<not> isl (encode_webp enc (page_image c t img))"

definition page_entry :: "archive_cleaner \<Rightarrow> resampler \<Rightarrow> webp_encoder \<Rightarrow> nat \<Rightarrow> image \<Rightarrow> zip_entry" where
  "page_entry c t enc i img = new_entry (webp_name (Suc i)) (projr (encode_webp enc (page_image c t img)))"

definition page_message :: "archive_cleaner \<Rightarrow> resampler \<Rightarrow> webp_encoder \<Rightarrow> image \<Rightarrow> string" where
  "page_message c t enc img =
     (if \<not> image_meets_criteria c (img_width img) (img_height img) then ''Error: Processing error''
      else case encode_webp enc (page_image c t img) of
             Inl e \<Rightarrow> ''Error: '' @ e
           | Inr _ \<Rightarrow> ''Done!'')"

definition paged_entries ::
  "archive_cleaner \<Rightarrow> resampler \<Rightarrow> webp_encoder \<Rightarrow> image list \<Rightarrow> nat list \<Rightarrow> zip_entry list" where
  "paged_entries c t enc images order =
     map (\<lambda>i. page_entry c t enc i (images ! i)) (filter (\<lambda>i. page_written c t enc (images ! i)) order)"

lemma worker_seq_ok:
  assumes "writes_succeed (ps_fs st)" and "\<not> ps_poisoned st"
    and "webp_name (Suc i) \<notin> entry_name ` set (zw_entries (ps_zip st))"
  shows "zw_entries (ps_zip (worker_seq c t enc images i st))
           = zw_entries (ps_zip st) @ (if page_written c t enc (images ! i) then [page_entry c t enc i (images ! i)] else [])
         \<and> ps_fs (worker_seq c t enc images i st)
           = (if page_written c t enc (images ! i) then zw_store (ps_zip (worker_seq c t enc images i st)) (ps_fs st)
              else ps_fs st)
         \<and> zw_inode (ps_zip (worker_seq c t enc images i st)) = zw_inode (ps_zip st)
         \<and> zw_path (ps_zip (worker_seq c t enc images i st)) = zw_path (ps_zip st)
         \<and> ps_progress (worker_seq c t enc images i st) = Suc (ps_progress st)
         \<and> ps_spinner (worker_seq c t enc images i st) = (ps_spinner st)(i := page_message c t enc (images ! i))"
  using assms
  by (auto simp: worker_seq_def process_image_def acquire_def release_def finish_worker_def tick_def
                 start_file_def write_all_def zw_store_def page_written_def page_entry_def new_entry_def
                 page_message_def page_image_def Let_def
           split: sum.split)

lemma paged_entries_Cons [simp]:
  "paged_entries c t enc images [] = []"
  "paged_entries c t enc images (x # xs) =
     (if page_written c t enc (images ! x) then [page_entry c t enc x (images ! x)] else [])
     @ paged_entries c t enc images xs"
  by (simp_all add: paged_entries_def)

lemma run_seq_ok:
  assumes "writes_succeed (ps_fs st)" and "\<not> ps_poisoned st" and "distinct xs"
    and "\<forall>i \<in> set xs. webp_name (Suc i) \<notin> entry_name ` set (zw_entries (ps_zip st))"
  shows "zw_entries (ps_zip (run_seq c t enc images xs st))
           = zw_entries (ps_zip st) @ paged_entries c t enc images xs
         \<and> ps_fs (run_seq c t enc images xs st)
           = (if paged_entries c t enc images xs = [] then ps_fs st
              else zw_store (ps_zip (run_seq c t enc images xs st)) (ps_fs st))
         \<and> zw_inode (ps_zip (run_seq c t enc images xs st)) = zw_inode (ps_zip st)
         \<and> zw_path (ps_zip (run_seq c t enc images xs st)) = zw_path (ps_zip st)
         \<and> ps_progress (run_seq c t enc images xs st) = ps_progress st + length xs
         \<and> (\<forall>i. ps_spinner (run_seq c t enc images xs st) i
                 = (if i \<in> set xs then page_message c t enc (images ! i) else ps_spinner st i))"
  using assms
proof (induction xs arbitrary: st)
  case Nil
  then show ?case by (simp add: run_seq_def)
next
  case (Cons x xs)
  let ?st1 = "worker_seq c t enc images x st"
  have eq: "run_seq c t enc images (x # xs) st = run_seq c t enc images xs ?st1"
    by (simp add: run_seq_def)
  have fresh: "webp_name (Suc x) \<notin> entry_name ` set (zw_entries (ps_zip st))" using Cons.prems(4) by simp
  note w = worker_seq_ok [OF Cons.prems(1,2) fresh, of c t enc images]
  have ws1: "writes_succeed (ps_fs ?st1)" using w Cons.prems(1) by (auto simp: writes_succeed_def zw_store_def)
  have np1: "\<not> ps_poisoned ?st1" using worker_seq_frame [OF Cons.prems(2)] by blast
  have fr1: "\<forall>i \<in> set xs. webp_name (Suc i) \<notin> entry_name ` set (zw_entries (ps_zip ?st1))"
    using w Cons.prems(3,4) by (auto simp: page_entry_def new_entry_def)
  note ih = Cons.IH [OF ws1 np1 _ fr1]
  have ih': "zw_entries (ps_zip (run_seq c t enc images xs ?st1))
               = zw_entries (ps_zip ?st1) @ paged_entries c t enc images xs"
    "ps_fs (run_seq c t enc images xs ?st1)
       = (if paged_entries c t enc images xs = [] then ps_fs ?st1
          else zw_store (ps_zip (run_seq c t enc images xs ?st1)) (ps_fs ?st1))"
    "zw_inode (ps_zip (run_seq c t enc images xs ?st1)) = zw_inode (ps_zip ?st1)"
    "zw_path (ps_zip (run_seq c t enc images xs ?st1)) = zw_path (ps_zip ?st1)"
    "ps_progress (run_seq c t enc images xs ?st1) = ps_progress ?st1 + length xs"
    "\<forall>i. ps_spinner (run_seq c t enc images xs ?st1) i
        = (if i \<in> set xs then page_message c t enc (images ! i) else ps_spinner ?st1 i)"
    using ih Cons.prems(3) by simp_all
  have fs: "ps_fs (run_seq c t enc images xs ?st1)
            = (if paged_entries c t enc images (x # xs) = [] then ps_fs st
               else zw_store (ps_zip (run_seq c t enc images xs ?st1)) (ps_fs st))"
    using ih'(1,2,3) w by (auto simp: zw_store_def)
  show ?case
    unfolding eq using ih'(1,3,4,5,6) fs w by auto
qed

section \<open>\<open>process_non_manhwa_images\<close>\<close>

text \<open>
  The order in which the threads take the lock is chosen by the scheduler; it is a
  parameter here, a permutation of the pages (\<open>schedule_ok\<close>). By the theorems above,
  every complete interleaving of \<open>paged_step\<close> is the sequential run in its lock order,
  so ranging over the permutations covers all of them.
\<close>

definition schedule_ok :: "image list \<Rightarrow> nat list \<Rightarrow> bool" where
  "schedule_ok images order \<longleftrightarrow> distinct order \<and> set order = set [0..<length images]"

text \<open>
  \<open>process_images_threaded\<close>: spawn one thread per page, join them all
  (\<open>join().expect("Thread panicked")\<close> panics if a thread panicked), finish the bar.
\<close>

definition process_images_threaded ::
  "archive_cleaner \<Rightarrow> resampler \<Rightarrow> webp_encoder \<Rightarrow> image list \<Rightarrow> nat list \<Rightarrow> paged_state \<Rightarrow> unit outcome \<times> paged_state" where
  "process_images_threaded c t enc images order st =
     (let st' = run_seq c t enc images order st
      in if list_ex (\<lambda>i. ps_pc st' i \<in> Finished ` {r. is_panic r}) order
         then (Panic ''Thread panicked'', st') else (Ok (), st'))"

text \<open>
  \<open>process_non_manhwa_images\<close>: \<open>extract_file_info(..)?\<close>, \<open>File::create(temp)?\<close>, the
  writer in an \<open>Arc<Mutex<..>>\<close>, the threads, \<open>fs::rename(temp, <name>.cbz)?\<close>. The last
  \<open>Arc\<close> of the writer is dropped when the function returns (or unwinds), after the
  rename: the drop writes the central directory.
\<close>

definition process_non_manhwa_images ::
  "archive_cleaner \<Rightarrow> resampler \<Rightarrow> webp_encoder \<Rightarrow> image list \<Rightarrow> nat list \<Rightarrow> unit st" where
  "process_non_manhwa_images c t enc images order s =
     (case extract_file_info (archive_path c) of
        Ok (name, dir_path) \<Rightarrow>
          (let temp = temp_archive_path name dir_path
           in case file_create temp s of
                (Ok ino, s1) \<Rightarrow>
                  (let (r, st) = process_images_threaded c t enc images order (init_state s1 (ZipWriter_new ino temp))
                   in case r of
                        Ok _ \<Rightarrow>
                          (let (r2, s2) = fs_rename temp (final_archive_path name dir_path) (ps_fs st)
                           in (r2, zip_drop (ps_zip st) s2))
                      | Err e \<Rightarrow> (Err e, zip_drop (ps_zip st) (ps_fs st))
                      | Panic m \<Rightarrow> (Panic m, zip_drop (ps_zip st) (ps_fs st)))
              | (Err e, s1) \<Rightarrow> (Err e, s1)
              | (Panic m, s1) \<Rightarrow> (Panic m, s1))
      | Err e \<Rightarrow> (Err e, s)
      | Panic m \<Rightarrow> (Panic m, s))"

lemma run_seq_no_panic:
  assumes "\<not> ps_poisoned st" and "ps_lock st = None"
  shows "\<not> list_ex (\<lambda>i. ps_pc (run_seq c t enc images xs st) i \<in> Finished ` {r. is_panic r}) xs"
  using assms
proof (induction xs arbitrary: st rule: rev_induct)
  case Nil
  then show ?case by simp
next
  case (snoc x xs)
  let ?st = "run_seq c t enc images xs st"
  have eq: "run_seq c t enc images (xs @ [x]) st = worker_seq c t enc images x ?st"
    by (simp add: run_seq_def)
  have np: "\<not> ps_poisoned ?st" using run_seq_frame [OF snoc.prems] by blast
  obtain r st' where p: "process_image c t enc x (images ! x) (acquire x ?st) = (r, st')" by fastforce
  have "\<not> is_panic r" using process_image_frame [OF p] by blast
  then have "ps_pc (worker_seq c t enc images x ?st) =
             (ps_pc ?st)(x := Finished r) \<and> \<not> is_panic r"
    using worker_seq_frame [OF np, of c t enc images x] p by simp
  then show ?case
    unfolding eq using snoc.IH [OF snoc.prems] by (auto simp: list_ex_iff)
qed

lemma process_images_threaded_run:
  "process_images_threaded c t enc images order (init_state s w)
     = (Ok (), run_seq c t enc images order (init_state s w))"
  using run_seq_no_panic [of "init_state s w" c t enc images order]
  by (simp add: process_images_threaded_def Let_def)

lemma process_non_manhwa_images_result:
  assumes "writes_succeed s" and "extract_file_info (archive_path c) = Ok (name, dir_path)"
    and "schedule_ok images order"
  shows "\<exists>ino s'. process_non_manhwa_images c t enc images order s = (Ok (), s')
           \<and> fs_dir s' = ((fs_dir s)(temp_archive_path name dir_path := None))(final_archive_path name dir_path \<mapsto> ino)
           \<and> (\<forall>i. i \<noteq> ino \<longrightarrow> fs_inode s' i = fs_inode s i)
           \<and> zip_contents (fs_inode s' ino) = paged_entries c t enc images order
           \<and> (fs_inode s' ino = Some (ZipFile (paged_entries c t enc images order) True)
              \<longleftrightarrow> \<not> fs_fails s (Finish (temp_archive_path name dir_path)))"
proof -
  let ?temp = "temp_archive_path name dir_path" and ?final = "final_archive_path name dir_path"
  obtain ino s1 where cr: "file_create ?temp s = (Ok ino, s1)"
    using file_create_ok [OF assms(1)] by blast
  have e1: "fs_dir s1 = (fs_dir s)(?temp \<mapsto> ino)" "fs_inode s1 = (fs_inode s)(ino \<mapsto> Blob [])"
    "fs_fails s1 = fs_fails s"
    using file_create_effect [OF cr] by simp_all
  let ?s1 = s1
  let ?w = "ZipWriter_new ino ?temp"
  let ?st = "run_seq c t enc images order (init_state ?s1 ?w)"
  let ?es = "paged_entries c t enc images order"
  have ws1: "writes_succeed ?s1" using assms(1) e1(3) by (simp add: writes_succeed_def)
  have r: "zw_entries (ps_zip ?st) = ?es"
    "ps_fs ?st = (if ?es = [] then ?s1 else zw_store (ps_zip ?st) ?s1)"
    "zw_inode (ps_zip ?st) = ino" "zw_path (ps_zip ?st) = ?temp"
    using run_seq_ok [of "init_state ?s1 ?w" order c t enc images] ws1 assms(3)
    by (simp_all add: schedule_ok_def ZipWriter_new_def)
  have d: "fs_dir (ps_fs ?st) = (fs_dir s)(?temp \<mapsto> ino)" "fs_fails (ps_fs ?st) = fs_fails s"
    using r(2) e1 by (simp_all add: zw_store_def)
  have i: "\<forall>k. k \<noteq> ino \<longrightarrow> fs_inode (ps_fs ?st) k = fs_inode s k"
    using r(2,3) e1 by (simp add: zw_store_def)
  have c: "zip_contents (fs_inode (ps_fs ?st) ino) = ?es"
    "(?es = [] \<and> fs_inode (ps_fs ?st) ino = Some (Blob [])) \<or> fs_inode (ps_fs ?st) ino = Some (ZipFile ?es False)"
    using r e1 by (auto simp: zw_store_def zip_contents_def)
  let ?s3 = "(ps_fs ?st)\<lparr>fs_dir := ((fs_dir (ps_fs ?st))(?temp := None))(?final \<mapsto> ino)\<rparr>"
  have rn: "fs_rename ?temp ?final (ps_fs ?st) = (Ok (), ?s3)"
    using fs_rename_ok [of "ps_fs ?st" ?temp ino ?final] assms(1) d by (simp add: writes_succeed_def)
  have pt: "process_images_threaded c t enc images order (init_state ?s1 ?w) = (Ok (), ?st)"
    by (rule process_images_threaded_run)
  have run: "process_non_manhwa_images c t enc images order s = (Ok (), zip_drop (ps_zip ?st) ?s3)"
    unfolding process_non_manhwa_images_def using assms(2) cr pt rn by (simp add: Let_def)
  have ino: "fs_inode (zip_drop (ps_zip ?st) ?s3) ino =
               (if fs_fails s (Finish ?temp) then fs_inode (ps_fs ?st) ino else Some (ZipFile ?es True))"
    using zip_drop_result(1) [of "ps_zip ?st" ?s3] c(1) d(2) r(3,4) by simp
  have "zip_contents (fs_inode (zip_drop (ps_zip ?st) ?s3) ino) = ?es"
    using ino c(1) by (simp add: zip_contents_def)
  moreover have "fs_inode (zip_drop (ps_zip ?st) ?s3) ino = Some (ZipFile ?es True)
                 \<longleftrightarrow> \<not> fs_fails s (Finish ?temp)"
    using ino c(2) by auto
  moreover have "fs_dir (zip_drop (ps_zip ?st) ?s3) = ((fs_dir s)(?temp := None))(?final \<mapsto> ino)"
    using d(1) by (simp add: zip_drop_result)
  moreover have "\<forall>k. k \<noteq> ino \<longrightarrow> fs_inode (zip_drop (ps_zip ?st) ?s3) k = fs_inode s k"
    using i r(3) by (simp add: zip_drop_def)
  ultimately show ?thesis using run by blast
qed

text \<open>Every schedule is an interleaving: a thread that runs alone from start to end.\<close>

lemma worker_seq_steps:
  assumes "\<not> ps_poisoned st" and "ps_lock st = None" and "i < length images" and "ps_pc st i = Ready"
  shows "(paged_step c t enc images)\<^sup>*\<^sup>* st (worker_seq c t enc images i st)"
proof -
  obtain r st' where p: "process_image c t enc i (images ! i) (acquire i st) = (r, st')" by fastforce
  have s1: "paged_step c t enc images st (acquire i st)"
    by (rule paged_step.lock_ok [OF assms(3,4,2,1)])
  have s2: "paged_step c t enc images (acquire i st) (release i r st')"
    using p by (intro paged_step.body) (simp_all add: acquire_def)
  have "worker_seq c t enc images i st = release i r st'"
    using assms(1) p by (simp add: worker_seq_def)
  then show ?thesis using s1 s2 by simp
qed

lemma run_seq_reachable:
  assumes "distinct xs" and "set xs \<subseteq> {..<length images}"
  shows "(paged_step c t enc images)\<^sup>*\<^sup>* (init_state s w) (run_seq c t enc images xs (init_state s w))"
  using assms
proof (induction xs rule: rev_induct)
  case Nil
  then show ?case by (simp add: run_seq_def)
next
  case (snoc x xs)
  let ?q = "run_seq c t enc images xs (init_state s w)"
  have q: "ps_lock ?q = None" "\<not> ps_poisoned ?q" "ps_pc ?q x = Ready"
    using run_seq_init [of c t enc images xs s w] snoc.prems(1) by auto
  have "(paged_step c t enc images)\<^sup>*\<^sup>* ?q (worker_seq c t enc images x ?q)"
    using q snoc.prems(2) by (intro worker_seq_steps) auto
  moreover have "run_seq c t enc images (xs @ [x]) (init_state s w) = worker_seq c t enc images x ?q"
    by (simp add: run_seq_def)
  ultimately show ?case using snoc by (metis distinct_append le_sup_iff set_append rtranclp_trans)
qed

lemma paged_entries_names:
  "map entry_name (paged_entries c t enc images xs)
     = map (\<lambda>i. webp_name (Suc i)) (filter (\<lambda>i. page_written c t enc (images ! i)) xs)"
  by (simp add: paged_entries_def page_entry_def new_entry_def)

lemma paged_entries_mset:
  "mset xs = mset ys \<Longrightarrow> mset (paged_entries c t enc images xs) = mset (paged_entries c t enc images ys)"
  by (simp add: paged_entries_def)

lemma schedule_ok_mset: "schedule_ok images order \<Longrightarrow> mset order = mset [0..<length images]"
  unfolding schedule_ok_def by (metis distinct_upt set_eq_iff_mset_eq_distinct)

lemma thumbnail_dims:
  assumes "resampler_ok t"
  shows "img_width (thumbnail t img nw nh) = fst (resize_dimensions (img_width img) (img_height img) nw nh)
         \<and> img_height (thumbnail t img nw nh) = snd (resize_dimensions (img_width img) (img_height img) nw nh)"
  using assms by (simp add: thumbnail_def resampler_ok_def split: prod.split)

section \<open>Properties\<close>

text \<open>
  Mutual exclusion. In every state an interleaving of the threads
  reaches, a thread is inside its critical section exactly when it owns the mutex, so no
  two threads are ever inside at once. Since \<open>process_image\<close> takes the lock before
  the criteria test, the thumbnail and the encoding, none of that work overlaps.
\<close>

theorem paged_mutual_exclusion:
  assumes "(paged_step c t enc images)\<^sup>*\<^sup>* (init_state s w) st"
  shows "(\<forall>i. ps_pc st i = Holding \<longleftrightarrow> ps_lock st = Some i)
         \<and> (\<forall>i j. ps_pc st i = Holding \<longrightarrow> ps_pc st j = Holding \<longrightarrow> i = j)"
  using paged_inv_lock [OF paged_reachable_inv [OF assms]] by auto

theorem paged_mutual_exclusion_witness:
  "(paged_step (ArchiveCleaner_new [''a.cbz'']) nearest_resize (\<lambda>b w h. Inr b) [new_rgba8 2 3, new_rgba8 2 3])\<^sup>*\<^sup>*
      (init_state \<lparr>fs_dir = Map.empty, fs_inode = Map.empty, fs_next = 0, fs_fails = (\<lambda>_. False)\<rparr>
                  (ZipWriter_new 0 [''t'']))
      (acquire 1 (init_state \<lparr>fs_dir = Map.empty, fs_inode = Map.empty, fs_next = 0, fs_fails = (\<lambda>_. False)\<rparr>
                  (ZipWriter_new 0 [''t''])))
   \<and> ps_lock (acquire 1 (init_state \<lparr>fs_dir = Map.empty, fs_inode = Map.empty, fs_next = 0, fs_fails = (\<lambda>_. False)\<rparr>
                  (ZipWriter_new 0 [''t'']))) = Some 1
   \<and> ps_pc (acquire 1 (init_state \<lparr>fs_dir = Map.empty, fs_inode = Map.empty, fs_next = 0, fs_fails = (\<lambda>_. False)\<rparr>
                  (ZipWriter_new 0 [''t'']))) 0 \<noteq> Holding"
proof -
  let ?s = "\<lparr>fs_dir = Map.empty, fs_inode = Map.empty, fs_next = 0, fs_fails = (\<lambda>_. False)\<rparr>"
  let ?st = "acquire 1 (init_state ?s (ZipWriter_new 0 [''t'']))"
  have r: "(paged_step (ArchiveCleaner_new [''a.cbz'']) nearest_resize (\<lambda>b w h. Inr b) [new_rgba8 2 3, new_rgba8 2 3])\<^sup>*\<^sup>*
             (init_state ?s (ZipWriter_new 0 [''t''])) ?st"
    by (rule r_into_rtranclp, rule paged_step.lock_ok) simp_all
  have h: "ps_pc ?st 1 = Holding" by (simp add: acquire_def)
  show ?thesis using r paged_mutual_exclusion [OF r] h by (metis zero_neq_one)
qed

text \<open>
  C17 (refinement): serializability. The complete interleavings of the threads are
  exactly the sequential runs of the threads in some order: every interleaving that
  finishes ends in the state of running the threads one after another in the order they
  took the lock, and every order of the pages is the lock order of some interleaving.
\<close>

theorem paged_serializable:
  "((paged_step c t enc images)\<^sup>*\<^sup>* (init_state s w) st \<and> terminal images st)
   \<longleftrightarrow> (\<exists>order. schedule_ok images order \<and> st = run_seq c t enc images order (init_state s w))"
proof
  assume a: "(paged_step c t enc images)\<^sup>*\<^sup>* (init_state s w) st \<and> terminal images st"
  note inv = paged_reachable_inv [OF conjunct1 [OF a]]
  have t: "ps_lock st = None \<and> set (ps_log st) = {..<length images}"
    using paged_inv_terminal [OF inv conjunct2 [OF a]] .
  then have "st = run_seq c t enc images (ps_log st) (init_state s w)"
    using inv by (simp add: paged_inv_def)
  moreover have "schedule_ok images (ps_log st)"
    using inv t by (simp add: paged_inv_def schedule_ok_def lessThan_atLeast0)
  ultimately show "\<exists>order. schedule_ok images order \<and> st = run_seq c t enc images order (init_state s w)"
    by blast
next
  assume "\<exists>order. schedule_ok images order \<and> st = run_seq c t enc images order (init_state s w)"
  then obtain order where o: "schedule_ok images order"
    and st: "st = run_seq c t enc images order (init_state s w)" by blast
  have "(paged_step c t enc images)\<^sup>*\<^sup>* (init_state s w) st"
    using o st by (auto intro: run_seq_reachable simp: schedule_ok_def)
  moreover have "terminal images st"
    using o st run_seq_init [of c t enc images order s w] by (auto simp: terminal_def schedule_ok_def)
  ultimately show "(paged_step c t enc images)\<^sup>*\<^sup>* (init_state s w) st \<and> terminal images st" by blast
qed

text \<open>
  Every interleaving of the threads stops after at most two steps
  per page (taking the lock, then the body): no run of \<open>process_images_threaded\<close> is
  infinite.
\<close>

theorem paged_run_bounded:
  assumes "(paged_step c t enc images ^^ k) (init_state s w) st"
  shows "k \<le> 2 * length images"
proof -
  note cnt = paged_steps_count [OF assms]
  have "length (ps_log st) \<le> length images"
    using cnt distinct_card [of "ps_log st"] card_mono [of "{..<length images}" "set (ps_log st)"]
    by (simp add: paged_inv_def)
  then show ?thesis using cnt by linarith
qed

theorem paged_run_bounded_witness:
  "(paged_step (ArchiveCleaner_new [''a.cbz'']) nearest_resize (\<lambda>b w h. Inr b) [new_rgba8 2 3] ^^ 1)
      (init_state \<lparr>fs_dir = Map.empty, fs_inode = Map.empty, fs_next = 0, fs_fails = (\<lambda>_. False)\<rparr>
                  (ZipWriter_new 0 [''t'']))
      (acquire 0 (init_state \<lparr>fs_dir = Map.empty, fs_inode = Map.empty, fs_next = 0, fs_fails = (\<lambda>_. False)\<rparr>
                  (ZipWriter_new 0 [''t''])))
   \<and> (1::nat) \<le> 2 * length [new_rgba8 2 3]"
proof -
  let ?s = "\<lparr>fs_dir = Map.empty, fs_inode = Map.empty, fs_next = 0, fs_fails = (\<lambda>_. False)\<rparr>"
  have r: "(paged_step (ArchiveCleaner_new [''a.cbz'']) nearest_resize (\<lambda>b w h. Inr b) [new_rgba8 2 3] ^^ 1)
             (init_state ?s (ZipWriter_new 0 [''t''])) (acquire 0 (init_state ?s (ZipWriter_new 0 [''t''])))"
    unfolding relpowp_1 by (rule paged_step.lock_ok) simp_all
  show ?thesis using r paged_run_bounded [OF r] by blast
qed

text \<open>
  No deadlock. A reachable state in which some thread has not finished
  always has a next step; with the bound above, every run ends with all threads finished.
\<close>

theorem paged_no_deadlock:
  assumes "(paged_step c t enc images)\<^sup>*\<^sup>* (init_state s w) st" and "\<not> terminal images st"
  shows "\<exists>st'. paged_step c t enc images st st'"
proof (cases "ps_lock st")
  case (Some i)
  then have "ps_pc st i = Holding"
    using paged_inv_lock [OF paged_reachable_inv [OF assms(1)]] by blast
  moreover obtain r st1 where "process_image c t enc i (images ! i) st = (r, st1)" by fastforce
  ultimately show ?thesis by (blast intro: paged_step.body)
next
  case None
  obtain i where i: "i < length images" "\<And>r. ps_pc st i \<noteq> Finished r"
    using assms(2) by (auto simp: terminal_def)
  have np: "\<not> ps_poisoned st" and h: "ps_pc st i \<noteq> Holding"
    using paged_inv_lock [OF paged_reachable_inv [OF assms(1)]] None by auto
  have "ps_pc st i = Ready" using i(2) h by (cases "ps_pc st i") auto
  then show ?thesis using i(1) None np by (blast intro: paged_step.lock_ok)
qed

theorem paged_no_deadlock_witness:
  "(paged_step (ArchiveCleaner_new [''a.cbz'']) nearest_resize (\<lambda>b w h. Inr b) [new_rgba8 2 3])\<^sup>*\<^sup>*
      (init_state \<lparr>fs_dir = Map.empty, fs_inode = Map.empty, fs_next = 0, fs_fails = (\<lambda>_. False)\<rparr>
                  (ZipWriter_new 0 [''t'']))
      (init_state \<lparr>fs_dir = Map.empty, fs_inode = Map.empty, fs_next = 0, fs_fails = (\<lambda>_. False)\<rparr>
                  (ZipWriter_new 0 [''t'']))
   \<and> \<not> terminal [new_rgba8 2 3]
      (init_state \<lparr>fs_dir = Map.empty, fs_inode = Map.empty, fs_next = 0, fs_fails = (\<lambda>_. False)\<rparr>
                  (ZipWriter_new 0 [''t'']))
   \<and> (\<exists>st'. paged_step (ArchiveCleaner_new [''a.cbz'']) nearest_resize (\<lambda>b w h. Inr b) [new_rgba8 2 3]
      (init_state \<lparr>fs_dir = Map.empty, fs_inode = Map.empty, fs_next = 0, fs_fails = (\<lambda>_. False)\<rparr>
                  (ZipWriter_new 0 [''t''])) st')"
proof -
  let ?s = "\<lparr>fs_dir = Map.empty, fs_inode = Map.empty, fs_next = 0, fs_fails = (\<lambda>_. False)\<rparr>"
  let ?st = "init_state ?s (ZipWriter_new 0 [''t''])"
  have r: "(paged_step (ArchiveCleaner_new [''a.cbz'']) nearest_resize (\<lambda>b w h. Inr b) [new_rgba8 2 3])\<^sup>*\<^sup>* ?st ?st"
    by simp
  have n: "\<not> terminal [new_rgba8 2 3] ?st" by (simp add: terminal_def)
  show ?thesis using r n paged_no_deadlock [OF r n] by blast
qed

text \<open>
  C18 (functional): when no write fails, the paged pass returns \<open>Ok\<close> and leaves at
  \<open><name>.cbz\<close> a container whose entries are, whatever the thread schedule, the
  entries \<open><i + 1>.webp\<close> of the pages written, each once: as a multiset they do not
  depend on the schedule (only their physical order does), and their names are distinct.
\<close>

theorem paged_output:
  assumes "writes_succeed s" and "extract_file_info (archive_path c) = Ok (name, dir_path)"
    and "schedule_ok images order"
  shows "\<exists>ino s'. process_non_manhwa_images c t enc images order s = (Ok (), s')
           \<and> fs_dir s' (final_archive_path name dir_path) = Some ino
           \<and> fs_dir s' (temp_archive_path name dir_path) = None
           \<and> mset (zip_contents (fs_inode s' ino)) = mset (paged_entries c t enc images [0..<length images])
           \<and> distinct (map entry_name (zip_contents (fs_inode s' ino)))
           \<and> set (map entry_name (zip_contents (fs_inode s' ino)))
               = (\<lambda>i. webp_name (Suc i)) ` {i. i < length images \<and> page_written c t enc (images ! i)}"
proof -
  obtain ino s' where run: "process_non_manhwa_images c t enc images order s = (Ok (), s')"
    and d: "fs_dir s' = ((fs_dir s)(temp_archive_path name dir_path := None))(final_archive_path name dir_path \<mapsto> ino)"
    and z: "zip_contents (fs_inode s' ino) = paged_entries c t enc images order"
    using process_non_manhwa_images_result [OF assms] by blast
  have m: "mset (zip_contents (fs_inode s' ino)) = mset (paged_entries c t enc images [0..<length images])"
    unfolding z using schedule_ok_mset [OF assms(3)] by (rule paged_entries_mset)
  have dn: "distinct (map entry_name (zip_contents (fs_inode s' ino)))"
    using assms(3) unfolding z paged_entries_names by (simp add: schedule_ok_def distinct_map inj_on_def)
  have sn: "set (map entry_name (zip_contents (fs_inode s' ino)))
            = (\<lambda>i. webp_name (Suc i)) ` {i. i < length images \<and> page_written c t enc (images ! i)}"
    using assms(3) unfolding z paged_entries_names by (auto simp: schedule_ok_def)
  show ?thesis using run d m dn sn by auto
qed

theorem paged_output_witness:
  "writes_succeed \<lparr>fs_dir = [[''d'', ''a.cbz''] \<mapsto> 0], fs_inode = [0 \<mapsto> ZipFile [] True], fs_next = 1,
                   fs_fails = (\<lambda>_. False)\<rparr>
   \<and> extract_file_info (archive_path (ArchiveCleaner_new [''d'', ''a.cbz''])) = Ok (''a'', [''d''])
   \<and> schedule_ok [new_rgba8 2000 2000, new_rgba8 500 500] [1, 0]
   \<and> (\<exists>ino s'. process_non_manhwa_images (ArchiveCleaner_new [''d'', ''a.cbz'']) nearest_resize (\<lambda>b w h. Inr b)
                 [new_rgba8 2000 2000, new_rgba8 500 500] [1, 0]
                 \<lparr>fs_dir = [[''d'', ''a.cbz''] \<mapsto> 0], fs_inode = [0 \<mapsto> ZipFile [] True], fs_next = 1,
                  fs_fails = (\<lambda>_. False)\<rparr> = (Ok (), s')
          \<and> fs_dir s' (final_archive_path ''a'' [''d'']) = Some ino)"
proof -
  let ?s = "\<lparr>fs_dir = [[''d'', ''a.cbz''] \<mapsto> 0], fs_inode = [0 \<mapsto> ZipFile [] True], fs_next = 1,
             fs_fails = (\<lambda>_. False)\<rparr>"
  have h1: "writes_succeed ?s" by (simp add: writes_succeed_def)
  have h2: "extract_file_info (archive_path (ArchiveCleaner_new [''d'', ''a.cbz''])) = Ok (''a'', [''d''])"
    by (simp add: ArchiveCleaner_new_def extract_file_info_def path_file_name_def path_parent_def rsplit_once_def)
  have h3: "schedule_ok [new_rgba8 2000 2000, new_rgba8 500 500] [1, 0]"
    by (simp add: schedule_ok_def insert_commute)
  show ?thesis
    using h1 h2 h3 paged_output [OF h1 h2 h3, of nearest_resize "\<lambda>b w h. Inr b"] by blast
qed

text \<open>
  C19 (error): the paged pass loses the pages it skips. A page that does not meet the
  criteria gets no entry, yet the pass returns \<open>Ok\<close> and renames the container over
  \<open><name>.cbz\<close>, which for a \<open>.cbz\<close> original is the original: its small pages are gone.
\<close>

theorem paged_drops_small_pages:
  assumes "writes_succeed s" and "extract_file_info (archive_path c) = Ok (name, dir_path)"
    and "schedule_ok images order" and "i < length images"
    and "\<not> image_meets_criteria c (img_width (images ! i)) (img_height (images ! i))"
  shows "\<exists>ino s'. process_non_manhwa_images c t enc images order s = (Ok (), s')
           \<and> fs_dir s' (final_archive_path name dir_path) = Some ino
           \<and> webp_name (Suc i) \<notin> set (map entry_name (zip_contents (fs_inode s' ino)))"
proof -
  obtain ino s' where run: "process_non_manhwa_images c t enc images order s = (Ok (), s')"
    and d: "fs_dir s' = ((fs_dir s)(temp_archive_path name dir_path := None))(final_archive_path name dir_path \<mapsto> ino)"
    and z: "zip_contents (fs_inode s' ino) = paged_entries c t enc images order"
    using process_non_manhwa_images_result [OF assms(1-3)] by blast
  have "webp_name (Suc i) \<notin> set (map entry_name (zip_contents (fs_inode s' ino)))"
    using assms(5) unfolding z paged_entries_names by (auto simp: page_written_def)
  then show ?thesis using run d by auto
qed

theorem paged_drops_small_pages_witness:
  "writes_succeed \<lparr>fs_dir = [[''d'', ''a.cbz''] \<mapsto> 0], fs_inode = [0 \<mapsto> ZipFile [] True], fs_next = 1,
                   fs_fails = (\<lambda>_. False)\<rparr>
   \<and> extract_file_info (archive_path (ArchiveCleaner_new [''d'', ''a.cbz''])) = Ok (''a'', [''d''])
   \<and> schedule_ok [new_rgba8 2000 2000, new_rgba8 500 500] [0, 1]
   \<and> \<not> image_meets_criteria (ArchiveCleaner_new [''d'', ''a.cbz''])
         (img_width ([new_rgba8 2000 2000, new_rgba8 500 500] ! 1)) (img_height ([new_rgba8 2000 2000, new_rgba8 500 500] ! 1))
   \<and> (\<exists>ino s'. process_non_manhwa_images (ArchiveCleaner_new [''d'', ''a.cbz'']) nearest_resize (\<lambda>b w h. Inr b)
                 [new_rgba8 2000 2000, new_rgba8 500 500] [0, 1]
                 \<lparr>fs_dir = [[''d'', ''a.cbz''] \<mapsto> 0], fs_inode = [0 \<mapsto> ZipFile [] True], fs_next = 1,
                  fs_fails = (\<lambda>_. False)\<rparr> = (Ok (), s')
          \<and> fs_dir s' [''d'', ''a.cbz''] = Some ino
          \<and> ''2.webp'' \<notin> set (map entry_name (zip_contents (fs_inode s' ino))))"
proof -
  let ?s = "\<lparr>fs_dir = [[''d'', ''a.cbz''] \<mapsto> 0], fs_inode = [0 \<mapsto> ZipFile [] True], fs_next = 1,
             fs_fails = (\<lambda>_. False)\<rparr>"
  let ?imgs = "[new_rgba8 2000 2000, new_rgba8 500 500]"
  have h1: "writes_succeed ?s" by (simp add: writes_succeed_def)
  have h2: "extract_file_info (archive_path (ArchiveCleaner_new [''d'', ''a.cbz''])) = Ok (''a'', [''d''])"
    by (simp add: ArchiveCleaner_new_def extract_file_info_def path_file_name_def path_parent_def rsplit_once_def)
  have h3: "schedule_ok ?imgs [0, 1]" by (simp add: schedule_ok_def)
  have h4: "(1::nat) < length ?imgs" by simp
  have h5: "\<not> image_meets_criteria (ArchiveCleaner_new [''d'', ''a.cbz''])
              (img_width (?imgs ! 1)) (img_height (?imgs ! 1))"
    by (simp add: image_meets_criteria_def ArchiveCleaner_new_def IMAGE_SIZE_def new_rgba8_def)
  have n: "webp_name (Suc 1) = ''2.webp''" unfolding Suc_1 by (simp add: webp_name_def names_simps)
  have f: "final_archive_path ''a'' [''d''] = [''d'', ''a.cbz'']" by (simp add: final_archive_path_def)
  show ?thesis
    using h1 h2 h3 h5 paged_drops_small_pages [OF h1 h2 h3 h4 h5, of nearest_resize "\<lambda>b w h. Inr b"]
    unfolding n f by blast
qed

text \<open>
  C20 (bounds): every page the paged pass encodes fits the box: when the thumbnail
  resampler returns the size asked for, a non-empty page becomes an image of at most
  1024 x 1024 and at least 1 x 1, one side on the bound and the other within one pixel of
  the proportional size (\<open>|H w - h W| \<le> w\<close>, or symmetrically).
\<close>

theorem page_image_bounds:
  assumes "resampler_ok t" and "0 < unat (img_width img)" and "0 < unat (img_height img)"
  shows "img_width (page_image (ArchiveCleaner_new p) t img) \<le> 1024
         \<and> img_height (page_image (ArchiveCleaner_new p) t img) \<le> 1024
         \<and> 0 < img_width (page_image (ArchiveCleaner_new p) t img)
         \<and> 0 < img_height (page_image (ArchiveCleaner_new p) t img)
         \<and> ((unat (img_width (page_image (ArchiveCleaner_new p) t img)) = 1024
              \<and> \<bar>of_nat (unat (img_height (page_image (ArchiveCleaner_new p) t img))) * of_nat (unat (img_width img))
                   - of_nat (unat (img_height img)) * 1024\<bar> \<le> (of_nat (unat (img_width img)) :: rat))
           \<or> (unat (img_height (page_image (ArchiveCleaner_new p) t img)) = 1024
              \<and> \<bar>of_nat (unat (img_width (page_image (ArchiveCleaner_new p) t img))) * of_nat (unat (img_height img))
                   - of_nat (unat (img_width img)) * 1024\<bar> \<le> (of_nat (unat (img_height img)) :: rat)))"
proof -
  have b: "0 < unat (1024 :: u32)" by simp
  have d: "img_width (page_image (ArchiveCleaner_new p) t img) = fst (resize_dimensions (img_width img) (img_height img) 1024 1024)"
          "img_height (page_image (ArchiveCleaner_new p) t img) = snd (resize_dimensions (img_width img) (img_height img) 1024 1024)"
    using thumbnail_dims [OF assms(1)]
    by (simp_all add: page_image_def ArchiveCleaner_new_def IMAGE_SIZE_def)
  show ?thesis
    unfolding d
    using resize_dimensions_bounds [OF assms(2,3) b b] resize_dimensions_aspect [OF assms(2,3) b b]
    by simp
qed

theorem page_image_bounds_witness:
  "resampler_ok nearest_resize \<and> 0 < unat (img_width (new_rgba8 2000 3000))
   \<and> 0 < unat (img_height (new_rgba8 2000 3000))
   \<and> img_width (page_image (ArchiveCleaner_new [''a.cbz'']) nearest_resize (new_rgba8 2000 3000)) \<le> 1024
   \<and> img_height (page_image (ArchiveCleaner_new [''a.cbz'']) nearest_resize (new_rgba8 2000 3000)) \<le> 1024"
proof -
  have h2: "0 < unat (img_width (new_rgba8 2000 3000))" by (simp add: new_rgba8_def)
  have h3: "0 < unat (img_height (new_rgba8 2000 3000))" by (simp add: new_rgba8_def)
  show ?thesis
    using nearest_resize_ok h2 h3 page_image_bounds [OF nearest_resize_ok h2 h3, of "[''a.cbz'']"] by blast
qed

text \<open>
  The status a skipped page shows is an error. A page that does not meet
  the criteria is marked \<open>Skipped\<close>, but \<open>process_image\<close> reports it as
  \<open>Err("Processing error")\<close> and the thread's closure then overwrites the mark: at the end
  of the pass its spinner reads \<open>Error: Processing error\<close>.
\<close>

theorem skipped_page_reports_error:
  assumes "writes_succeed s" and "schedule_ok images order" and "i < length images"
    and "\<not> image_meets_criteria c (img_width (images ! i)) (img_height (images ! i))"
  shows "process_images_threaded c t enc images order (init_state s (ZipWriter_new ino p)) = (Ok (), st)
         \<Longrightarrow> ps_spinner st i = ''Error: Processing error''"
proof -
  assume r: "process_images_threaded c t enc images order (init_state s (ZipWriter_new ino p)) = (Ok (), st)"
  then have st: "st = run_seq c t enc images order (init_state s (ZipWriter_new ino p))"
    by (simp add: process_images_threaded_run)
  have "i \<in> set order" using assms(2,3) by (simp add: schedule_ok_def)
  then show ?thesis
    using run_seq_ok [of "init_state s (ZipWriter_new ino p)" order c t enc images] assms st
    by (simp add: schedule_ok_def ZipWriter_new_def page_message_def)
qed

theorem skipped_page_reports_error_witness:
  "writes_succeed \<lparr>fs_dir = Map.empty, fs_inode = Map.empty, fs_next = 0, fs_fails = (\<lambda>_. False)\<rparr>
   \<and> schedule_ok [new_rgba8 500 500] [0]
   \<and> \<not> image_meets_criteria (ArchiveCleaner_new [''a.cbz''])
        (img_width ([new_rgba8 500 500] ! 0)) (img_height ([new_rgba8 500 500] ! 0))
   \<and> ps_spinner (snd (process_images_threaded (ArchiveCleaner_new [''a.cbz'']) nearest_resize (\<lambda>b w h. Inr b)
        [new_rgba8 500 500] [0]
        (init_state \<lparr>fs_dir = Map.empty, fs_inode = Map.empty, fs_next = 0, fs_fails = (\<lambda>_. False)\<rparr>
                    (ZipWriter_new 0 [''t''])))) 0 = ''Error: Processing error''"
proof -
  let ?s = "\<lparr>fs_dir = Map.empty, fs_inode = Map.empty, fs_next = 0, fs_fails = (\<lambda>_. False)\<rparr>"
  let ?c = "ArchiveCleaner_new [''a.cbz'']"
  let ?f = "process_images_threaded ?c nearest_resize (\<lambda>b w h. Inr b) [new_rgba8 500 500] [0]
              (init_state ?s (ZipWriter_new 0 [''t'']))"
  have h1: "writes_succeed ?s" by (simp add: writes_succeed_def)
  have h2: "schedule_ok [new_rgba8 500 500] [0]" by (simp add: schedule_ok_def)
  have h3: "(0::nat) < length [new_rgba8 500 500]" by simp
  have h4: "\<not> image_meets_criteria ?c (img_width ([new_rgba8 500 500] ! 0)) (img_height ([new_rgba8 500 500] ! 0))"
    by (simp add: image_meets_criteria_def ArchiveCleaner_new_def IMAGE_SIZE_def new_rgba8_def)
  have r: "?f = (Ok (), snd ?f)" by (simp add: process_images_threaded_run)
  show ?thesis
    using h1 h2 h4 skipped_page_reports_error [OF h1 h2 h3 h4 r] by blast
qed

text \<open>
  A write error is not counted. When \<open>start_file\<close> fails for a page that
  met the criteria and encoded, \<open>process_image\<close> returns the error before
  \<open>pb.inc(1)\<close>: the overall progress and the spinner are left as they were, while the
  skip and encoder-error paths both count the page.
\<close>

theorem write_error_not_counted:
  assumes "image_meets_criteria c (img_width img) (img_height img)"
    and "encode_webp enc (page_image c t img) = Inr d"
    and "webp_name (Suc i) \<notin> entry_name ` set (zw_entries (ps_zip st))"
    and "fs_fails (ps_fs st) (StartFile (zw_path (ps_zip st)) (webp_name (Suc i)))"
  shows "process_image c t enc i img st = (Err (OsError (StartFile (zw_path (ps_zip st)) (webp_name (Suc i)))), st)"
  using assms
  by (simp add: process_image_def page_image_def start_file_def webp_name_def)

theorem write_error_not_counted_witness:
  "image_meets_criteria (ArchiveCleaner_new [''a.cbz'']) (img_width (new_rgba8 2000 3000)) (img_height (new_rgba8 2000 3000))
   \<and> encode_webp (\<lambda>b w h. Inr []) (page_image (ArchiveCleaner_new [''a.cbz'']) nearest_resize (new_rgba8 2000 3000)) = Inr []
   \<and> ps_progress (snd (process_image (ArchiveCleaner_new [''a.cbz'']) nearest_resize (\<lambda>b w h. Inr []) 0 (new_rgba8 2000 3000)
        (init_state \<lparr>fs_dir = Map.empty, fs_inode = Map.empty, fs_next = 0, fs_fails = (\<lambda>op. True)\<rparr>
                    (ZipWriter_new 0 [''t''])))) = 0"
proof -
  let ?st = "init_state \<lparr>fs_dir = Map.empty, fs_inode = Map.empty, fs_next = 0, fs_fails = (\<lambda>op. True)\<rparr>
                        (ZipWriter_new 0 [''t''])"
  have h1: "image_meets_criteria (ArchiveCleaner_new [''a.cbz'']) (img_width (new_rgba8 2000 3000)) (img_height (new_rgba8 2000 3000))"
    by (simp add: image_meets_criteria_def ArchiveCleaner_new_def IMAGE_SIZE_def new_rgba8_def)
  have h2: "encode_webp (\<lambda>b w h. Inr []) (page_image (ArchiveCleaner_new [''a.cbz'']) nearest_resize (new_rgba8 2000 3000)) = Inr []"
    by (simp add: encode_webp_def)
  have h3: "webp_name (Suc 0) \<notin> entry_name ` set (zw_entries (ps_zip ?st))"
    by (simp add: init_state_def ZipWriter_new_def)
  have h4: "fs_fails (ps_fs ?st) (StartFile (zw_path (ps_zip ?st)) (webp_name (Suc 0)))"
    by (simp add: init_state_def)
  show ?thesis
    using h1 h2 write_error_not_counted [OF h1 h2 h3 h4] by simp
qed

end
