(* ===== verification/Cleaner.thy ===== *)
theory Cleaner
  imports Strip_Transform Archive_Reader Paged_Transform
begin

text \<open>
  The cleaning pass of src/src/archive_cleaner.rs: \<open>clean_archive_file\<close> reads the
  images, runs the classifier, and when it selects the archive dispatches on the
  classification (\<open>write_archive\<close>) to the strip pass or the paged pass. Errors of the
  read and of the write are wrapped with their context message.
\<close>

section \<open>Operations\<close>

text \<open>\<open>write_archive(self, images)\<close>: the transform the classification chose.\<close>

definition write_archive ::
  "resampler \<Rightarrow> resampler \<Rightarrow> webp_encoder \<Rightarrow> nat list \<Rightarrow> archive_cleaner \<Rightarrow> image list \<Rightarrow> unit st" where
  "write_archive resize thumbnail_exact enc order c images =
     (case archive_type c of
        Manhwa \<Rightarrow> process_manhwa_images resize enc c images
      | Manga \<Rightarrow> process_non_manhwa_images c thumbnail_exact enc images order)"

text \<open>
  \<open>clean_archive_file(mut self, max_images_to_check)\<close>. The decoder, the two
  resamplers, the encoder and the thread schedule of the paged pass are the parameters
  of the pass.
\<close>

definition clean_archive_file ::
  "decoder \<Rightarrow> resampler \<Rightarrow> resampler \<Rightarrow> webp_encoder \<Rightarrow> nat list \<Rightarrow> archive_cleaner \<Rightarrow> nat \<Rightarrow> unit st" where
  "clean_archive_file dec resize thumbnail_exact enc order c max_images_to_check s =
     (case read_images_from_archive dec c s of
        (Err e, s1) \<Rightarrow> (Err (Wrapped ''Failed to read images from archive'' e), s1)
      | (Panic m, s1) \<Rightarrow> (Panic m, s1)
      | (Ok images, s1) \<Rightarrow>
          (let (rewrite, c') = should_write_archive c images max_images_to_check
           in if rewrite then
                (case write_archive resize thumbnail_exact enc order c' images s1 of
                   (Err e, s2) \<Rightarrow> (Err (Wrapped ''Failed to write archive'' e), s2)
                 | r \<Rightarrow> r)
              else (Ok (), s1)))"

section \<open>Lemmas\<close>

lemma clean_archive_file_read:
  assumes "read_images_from_archive dec c s = (Ok images, s1)"
  shows "s1 = s"
    and "clean_archive_file dec resize t enc order c m s =
           (if fst (should_write_archive c images m)
            then (case write_archive resize t enc order (snd (should_write_archive c images m)) images s of
                    (Err e, s2) \<Rightarrow> (Err (Wrapped ''Failed to write archive'' e), s2)
                  | r \<Rightarrow> r)
            else (Ok (), s))"
proof -
  show s1: "s1 = s" using read_images_state [of dec c s] assms by simp
  show "clean_archive_file dec resize t enc order c m s =
           (if fst (should_write_archive c images m)
            then (case write_archive resize t enc order (snd (should_write_archive c images m)) images s of
                    (Err e, s2) \<Rightarrow> (Err (Wrapped ''Failed to write archive'' e), s2)
                  | r \<Rightarrow> r)
            else (Ok (), s))"
    using assms s1 by (simp add: clean_archive_file_def split: prod.split)
qed

lemma clean_archive_file_read_fails:
  assumes "\<And>images. fst (read_images_from_archive dec c s) \<noteq> Ok images"
  shows "snd (clean_archive_file dec resize t enc order c m s) = s"
proof (cases "fst (read_images_from_archive dec c s)")
  case (Ok images)
  with assms show ?thesis by blast
next
  case (Err e)
  then have "read_images_from_archive dec c s = (Err e, s)"
    using read_images_state [of dec c s] by (metis prod.collapse)
  then show ?thesis by (simp add: clean_archive_file_def)
next
  case (Panic msg)
  then have "read_images_from_archive dec c s = (Panic msg, s)"
    using read_images_state [of dec c s] by (metis prod.collapse)
  then show ?thesis by (simp add: clean_archive_file_def)
qed

lemma should_write_archive_frame:
  "min_image_size (snd (should_write_archive c images m)) = min_image_size c
   \<and> archive_path (snd (should_write_archive c images m)) = archive_path c"
  unfolding should_write_archive_def by (rule should_write_loop_frame)

lemma should_write_archive_classify:
  assumes "list_all no_wrap (take m images)" and "classify (threshold c) m (map dims images) = Some k"
  shows "fst (should_write_archive c images m) \<and> archive_type (snd (should_write_archive c images m)) = k"
  using should_write_loop_refines [OF assms(1), of c] assms(2)
  unfolding should_write_archive_def classify_def take_map by simp

lemma strip_entries_cleaner:
  "min_image_size c' = min_image_size c \<Longrightarrow> strip_entries resize enc c' images = strip_entries resize enc c images"
  by (simp add: strip_entries_def)

lemma page_image_cleaner:
  "min_image_size c' = min_image_size c \<Longrightarrow> page_image c' = page_image c"
  by (simp add: page_image_def fun_eq_iff)

lemma image_meets_criteria_cleaner:
  "min_image_size c' = min_image_size c \<Longrightarrow> image_meets_criteria c' = image_meets_criteria c"
  by (simp add: image_meets_criteria_def fun_eq_iff)

lemma paged_entries_cleaner:
  assumes "min_image_size c' = min_image_size c"
  shows "paged_entries c' t enc images xs = paged_entries c t enc images xs"
  unfolding paged_entries_def page_written_def page_entry_def
            page_image_cleaner [OF assms] image_meets_criteria_cleaner [OF assms] ..

section \<open>Properties\<close>

text \<open>
  C22 (safety): an archive the classifier does not select is left untouched. Whenever
  no successful read yields images of which a sampled one meets the criteria (in
  particular when the read fails), the pass leaves the whole file system as it was.
\<close>

theorem clean_unselected_unchanged:
  assumes "\<forall>images. fst (read_images_from_archive dec c s) = Ok images \<longrightarrow> \<not> fst (should_write_archive c images m)"
  shows "snd (clean_archive_file dec resize t enc order c m s) = s"
proof (cases "\<exists>images. fst (read_images_from_archive dec c s) = Ok images")
  case True
  then obtain images where r: "fst (read_images_from_archive dec c s) = Ok images" by blast
  then have "read_images_from_archive dec c s = (Ok images, s)"
    using read_images_state [of dec c s] by (metis prod.collapse)
  then show ?thesis using clean_archive_file_read(2) assms r by simp
next
  case False
  then show ?thesis by (intro clean_archive_file_read_fails) blast
qed

theorem clean_unselected_unchanged_witness:
  "fst (read_images_from_archive (\<lambda>b. Some (new_rgba8 800 1100)) (ArchiveCleaner_new [''d'', ''a.cbz''])
          \<lparr>fs_dir = [[''d'', ''a.cbz''] \<mapsto> 0],
           fs_inode = [0 \<mapsto> ZipFile [\<lparr>entry_name = ''1.jpg'', entry_method = Stored, entry_data = []\<rparr>] True],
           fs_next = 1, fs_fails = (\<lambda>_. False)\<rparr>) = Ok [new_rgba8 800 1100]
   \<and> \<not> fst (should_write_archive (ArchiveCleaner_new [''d'', ''a.cbz'']) [new_rgba8 800 1100] 5)
   \<and> snd (clean_archive_file (\<lambda>b. Some (new_rgba8 800 1100)) nearest_resize nearest_resize (\<lambda>b w h. Inr b) [0]
          (ArchiveCleaner_new [''d'', ''a.cbz'']) 5
          \<lparr>fs_dir = [[''d'', ''a.cbz''] \<mapsto> 0],
           fs_inode = [0 \<mapsto> ZipFile [\<lparr>entry_name = ''1.jpg'', entry_method = Stored, entry_data = []\<rparr>] True],
           fs_next = 1, fs_fails = (\<lambda>_. False)\<rparr>)
       = \<lparr>fs_dir = [[''d'', ''a.cbz''] \<mapsto> 0],
          fs_inode = [0 \<mapsto> ZipFile [\<lparr>entry_name = ''1.jpg'', entry_method = Stored, entry_data = []\<rparr>] True],
          fs_next = 1, fs_fails = (\<lambda>_. False)\<rparr>"
proof -
  let ?s = "\<lparr>fs_dir = [[''d'', ''a.cbz''] \<mapsto> 0],
             fs_inode = [0 \<mapsto> ZipFile [\<lparr>entry_name = ''1.jpg'', entry_method = Stored, entry_data = []\<rparr>] True],
             fs_next = 1, fs_fails = (\<lambda>_. False)\<rparr>"
  let ?c = "ArchiveCleaner_new [''d'', ''a.cbz'']"
  have r: "read_images_from_archive (\<lambda>b. Some (new_rgba8 800 1100)) ?c ?s = (Ok [new_rgba8 800 1100], ?s)"
    by (simp add: read_images_from_archive_def st_bind_def st_return_def file_open_def zip_archive_new_def
                  ArchiveCleaner_new_def is_image_def ends_with_def)
  have h: "\<forall>images. fst (read_images_from_archive (\<lambda>b. Some (new_rgba8 800 1100)) ?c ?s) = Ok images
              \<longrightarrow> \<not> fst (should_write_archive ?c images 5)"
    using r by (simp add: should_write_archive_def image_meets_criteria_def shape_of_def
                          ArchiveCleaner_new_def IMAGE_SIZE_def new_rgba8_def)
  show ?thesis using h r clean_unselected_unchanged [OF h] by simp
qed

text \<open>
  C23 (functional): the whole pass on a strip archive. For a finished container at the
  archive's path, when no write fails, the classifier's first oversized image among the
  first \<open>m\<close> decoded pages is a strip (over exact arithmetic), the encoder succeeds and
  the heights fit in \<open>u32\<close>, \<open>clean_archive_file\<close> returns \<open>Ok\<close> and \<open><name>.cbz\<close> holds
  the bands of the decoded pages as \<open>1.webp, 2.webp, ...\<close>, finished unless writing the
  central directory failed.
\<close>

theorem clean_strip_end_to_end:
  assumes "writes_succeed s" and "fs_dir s (archive_path c) = Some i0"
    and "fs_inode s i0 = Some (ZipFile es True)"
    and "extract_file_info (archive_path c) = Ok (name, dir_path)"
    and "list_all no_wrap (take m (decoded_images dec es))"
    and "classify (threshold c) m (map dims (decoded_images dec es)) = Some Manhwa"
    and "encoder_total enc" and "resampler_ok resize"
    and "heights_sum (decoded_images dec es) < 2 ^ 32"
    and "slices_fit (total_height (decoded_images dec es)) (height (min_image_size c))"
  shows "\<exists>ino s'. clean_archive_file dec resize t enc order c m s = (Ok (), s')
           \<and> fs_dir s' (final_archive_path name dir_path) = Some ino
           \<and> zip_contents (fs_inode s' ino) = strip_entries resize enc c (decoded_images dec es)
           \<and> (fs_inode s' ino = Some (ZipFile (strip_entries resize enc c (decoded_images dec es)) True)
              \<longleftrightarrow> \<not> fs_fails s (Finish (temp_archive_path name dir_path)))"
proof -
  let ?imgs = "decoded_images dec es"
  let ?c' = "snd (should_write_archive c ?imgs m)"
  have rd: "read_images_from_archive dec c s = (Ok ?imgs, s)"
    using read_images_ok [OF _ assms(2,3)] assms(1) by simp
  have sw: "fst (should_write_archive c ?imgs m)" "archive_type ?c' = Manhwa"
    using should_write_archive_classify [OF assms(5,6)] by blast+
  have fr: "min_image_size ?c' = min_image_size c" "archive_path ?c' = archive_path c"
    using should_write_archive_frame by blast+
  have wa: "write_archive resize t enc order ?c' ?imgs = process_manhwa_images resize enc ?c' ?imgs"
    using sw(2) by (simp add: write_archive_def)
  obtain ino s' where run: "process_manhwa_images resize enc ?c' ?imgs s = (Ok (), s')"
      and rest: "fs_dir s' (final_archive_path name dir_path) = Some ino"
        "zip_contents (fs_inode s' ino) = strip_entries resize enc ?c' ?imgs"
        "fs_inode s' ino = Some (ZipFile (strip_entries resize enc ?c' ?imgs) True)
         \<longleftrightarrow> \<not> fs_fails s (Finish (temp_archive_path name dir_path))"
  proof -
    have e: "extract_file_info (archive_path ?c') = Ok (name, dir_path)" using assms(4) fr by simp
    have f: "slices_fit (total_height ?imgs) (height (min_image_size ?c'))" using assms(10) fr by simp
    show ?thesis
      using process_manhwa_images_result [OF assms(1,7,8) e assms(9) slices_fit_nonzero [OF f]] that
      by blast
  qed
  have "clean_archive_file dec resize t enc order c m s = (Ok (), s')"
    using clean_archive_file_read(2) [OF rd] sw(1) wa run by simp
  then show ?thesis using rest strip_entries_cleaner [OF fr(1)] by auto
qed

theorem clean_strip_end_to_end_witness:
  "writes_succeed \<lparr>fs_dir = [[''d'', ''a.cbz''] \<mapsto> 0],
                   fs_inode = [0 \<mapsto> ZipFile [\<lparr>entry_name = ''1.jpg'', entry_method = Stored, entry_data = []\<rparr>] True],
                   fs_next = 1, fs_fails = (\<lambda>_. False)\<rparr>
   \<and> classify (threshold (ArchiveCleaner_new [''d'', ''a.cbz''])) 5
       (map dims (decoded_images (\<lambda>b. Some (new_rgba8 700 2200))
                    [\<lparr>entry_name = ''1.jpg'', entry_method = Stored, entry_data = []\<rparr>])) = Some Manhwa
   \<and> (\<exists>ino s'. clean_archive_file (\<lambda>b. Some (new_rgba8 700 2200)) nearest_resize nearest_resize (\<lambda>b w h. Inr b) [0]
                 (ArchiveCleaner_new [''d'', ''a.cbz'']) 5
                 \<lparr>fs_dir = [[''d'', ''a.cbz''] \<mapsto> 0],
                  fs_inode = [0 \<mapsto> ZipFile [\<lparr>entry_name = ''1.jpg'', entry_method = Stored, entry_data = []\<rparr>] True],
                  fs_next = 1, fs_fails = (\<lambda>_. False)\<rparr> = (Ok (), s')
          \<and> fs_dir s' (final_archive_path ''a'' [''d'']) = Some ino)"
proof -
  let ?e = "\<lparr>entry_name = ''1.jpg'', entry_method = Stored, entry_data = []\<rparr>"
  let ?s = "\<lparr>fs_dir = [[''d'', ''a.cbz''] \<mapsto> 0], fs_inode = [0 \<mapsto> ZipFile [?e] True],
             fs_next = 1, fs_fails = (\<lambda>_. False)\<rparr>"
  let ?c = "ArchiveCleaner_new [''d'', ''a.cbz'']"
  let ?dec = "\<lambda>b::bytes. Some (new_rgba8 700 2200)"
  have im: "is_image ''1.jpg''" by (simp add: is_image_def ends_with_def)
  have d: "decoded_images ?dec [?e] = [new_rgba8 700 2200]" by (simp add: im)
  have h1: "writes_succeed ?s" by (simp add: writes_succeed_def)
  have h2: "fs_dir ?s (archive_path ?c) = Some 0" by (simp add: ArchiveCleaner_new_def)
  have h3: "fs_inode ?s 0 = Some (ZipFile [?e] True)" by simp
  have h4: "extract_file_info (archive_path ?c) = Ok (''a'', [''d''])"
    by (simp add: ArchiveCleaner_new_def extract_file_info_def path_file_name_def path_parent_def rsplit_once_def)
  have h5: "list_all no_wrap (take 5 (decoded_images ?dec [?e]))" by (simp add: d im no_wrap_def new_rgba8_def)
  have h6: "classify (threshold ?c) 5 (map dims (decoded_images ?dec [?e])) = Some Manhwa"
    by (simp add: d im classify_def threshold_def ArchiveCleaner_new_def IMAGE_SIZE_def dims_def
                  new_rgba8_def oversized_def strip_shape_def layout_of_def)
  have h7: "encoder_total (\<lambda>b w h. Inr b)" by (simp add: encoder_total_def)
  have h9: "heights_sum (decoded_images ?dec [?e]) < 2 ^ 32" by (simp add: d im new_rgba8_def)
  have h10: "slices_fit (total_height (decoded_images ?dec [?e])) (height (min_image_size ?c))"
    by (simp add: d im slices_fit_def total_height_def new_rgba8_def ArchiveCleaner_new_def IMAGE_SIZE_def)
  show ?thesis
    using h1 h6 clean_strip_end_to_end [OF h1 h2 h3 h4 h5 h6 h7 nearest_resize_ok h9 h10,
                                        of nearest_resize "[0]"] by blast
qed

text \<open>
  C24 (functional): the whole pass on a paged archive. Under the same conditions, when
  the deciding image is a page, \<open>clean_archive_file\<close> returns \<open>Ok\<close> and, for every thread
  schedule, \<open><name>.cbz\<close> holds the entries of the pages written, as in C18.
\<close>

theorem clean_paged_end_to_end:
  assumes "writes_succeed s" and "fs_dir s (archive_path c) = Some i0"
    and "fs_inode s i0 = Some (ZipFile es True)"
    and "extract_file_info (archive_path c) = Ok (name, dir_path)"
    and "list_all no_wrap (take m (decoded_images dec es))"
    and "classify (threshold c) m (map dims (decoded_images dec es)) = Some Manga"
    and "schedule_ok (decoded_images dec es) order"
  shows "\<exists>ino s'. clean_archive_file dec resize t enc order c m s = (Ok (), s')
           \<and> fs_dir s' (final_archive_path name dir_path) = Some ino
           \<and> zip_contents (fs_inode s' ino) = paged_entries c t enc (decoded_images dec es) order
           \<and> mset (zip_contents (fs_inode s' ino))
               = mset (paged_entries c t enc (decoded_images dec es) [0..<length (decoded_images dec es)])"
proof -
  let ?imgs = "decoded_images dec es"
  let ?c' = "snd (should_write_archive c ?imgs m)"
  have rd: "read_images_from_archive dec c s = (Ok ?imgs, s)"
    using read_images_ok [OF _ assms(2,3)] assms(1) by simp
  have sw: "fst (should_write_archive c ?imgs m)" "archive_type ?c' = Manga"
    using should_write_archive_classify [OF assms(5,6)] by blast+
  have fr: "min_image_size ?c' = min_image_size c" "archive_path ?c' = archive_path c"
    using should_write_archive_frame by blast+
  have wa: "write_archive resize t enc order ?c' ?imgs = process_non_manhwa_images ?c' t enc ?imgs order"
    using sw(2) by (simp add: write_archive_def)
  obtain ino s' where run: "process_non_manhwa_images ?c' t enc ?imgs order s = (Ok (), s')"
      and rest: "fs_dir s' = ((fs_dir s)(temp_archive_path name dir_path := None))(final_archive_path name dir_path \<mapsto> ino)"
        "zip_contents (fs_inode s' ino) = paged_entries ?c' t enc ?imgs order"
  proof -
    have e: "extract_file_info (archive_path ?c') = Ok (name, dir_path)" using assms(4) fr by simp
    show ?thesis using process_non_manhwa_images_result [OF assms(1) e assms(7)] that by blast
  qed
  have "clean_archive_file dec resize t enc order c m s = (Ok (), s')"
    using clean_archive_file_read(2) [OF rd] sw(1) wa run by simp
  moreover have "mset (paged_entries c t enc ?imgs order) = mset (paged_entries c t enc ?imgs [0..<length ?imgs])"
    using schedule_ok_mset [OF assms(7)] by (rule paged_entries_mset)
  ultimately show ?thesis using rest paged_entries_cleaner [OF fr(1)] by auto
qed

theorem clean_paged_end_to_end_witness:
  "writes_succeed \<lparr>fs_dir = [[''d'', ''a.cbz''] \<mapsto> 0],
                   fs_inode = [0 \<mapsto> ZipFile [\<lparr>entry_name = ''1.jpg'', entry_method = Stored, entry_data = []\<rparr>] True],
                   fs_next = 1, fs_fails = (\<lambda>_. False)\<rparr>
   \<and> classify (threshold (ArchiveCleaner_new [''d'', ''a.cbz''])) 5
       (map dims (decoded_images (\<lambda>b. Some (new_rgba8 2000 2000))
                    [\<lparr>entry_name = ''1.jpg'', entry_method = Stored, entry_data = []\<rparr>])) = Some Manga
   \<and> (\<exists>ino s'. clean_archive_file (\<lambda>b. Some (new_rgba8 2000 2000)) nearest_resize nearest_resize (\<lambda>b w h. Inr b) [0]
                 (ArchiveCleaner_new [''d'', ''a.cbz'']) 5
                 \<lparr>fs_dir = [[''d'', ''a.cbz''] \<mapsto> 0],
                  fs_inode = [0 \<mapsto> ZipFile [\<lparr>entry_name = ''1.jpg'', entry_method = Stored, entry_data = []\<rparr>] True],
                  fs_next = 1, fs_fails = (\<lambda>_. False)\<rparr> = (Ok (), s')
          \<and> fs_dir s' (final_archive_path ''a'' [''d'']) = Some ino)"
proof -
  let ?e = "\<lparr>entry_name = ''1.jpg'', entry_method = Stored, entry_data = []\<rparr>"
  let ?s = "\<lparr>fs_dir = [[''d'', ''a.cbz''] \<mapsto> 0], fs_inode = [0 \<mapsto> ZipFile [?e] True],
             fs_next = 1, fs_fails = (\<lambda>_. False)\<rparr>"
  let ?c = "ArchiveCleaner_new [''d'', ''a.cbz'']"
  let ?dec = "\<lambda>b::bytes. Some (new_rgba8 2000 2000)"
  have im: "is_image ''1.jpg''" by (simp add: is_image_def ends_with_def)
  have d: "decoded_images ?dec [?e] = [new_rgba8 2000 2000]" by (simp add: im)
  have h1: "writes_succeed ?s" by (simp add: writes_succeed_def)
  have h2: "fs_dir ?s (archive_path ?c) = Some 0" by (simp add: ArchiveCleaner_new_def)
  have h3: "fs_inode ?s 0 = Some (ZipFile [?e] True)" by simp
  have h4: "extract_file_info (archive_path ?c) = Ok (''a'', [''d''])"
    by (simp add: ArchiveCleaner_new_def extract_file_info_def path_file_name_def path_parent_def rsplit_once_def)
  have h5: "list_all no_wrap (take 5 (decoded_images ?dec [?e]))" by (simp add: d im no_wrap_def new_rgba8_def)
  have h6: "classify (threshold ?c) 5 (map dims (decoded_images ?dec [?e])) = Some Manga"
    by (simp add: d im classify_def threshold_def ArchiveCleaner_new_def IMAGE_SIZE_def dims_def
                  new_rgba8_def oversized_def strip_shape_def layout_of_def)
  have h7: "schedule_ok (decoded_images ?dec [?e]) [0]" by (simp add: d im schedule_ok_def)
  show ?thesis
    using h1 h6 clean_paged_end_to_end [OF h1 h2 h3 h4 h5 h6 h7, of nearest_resize nearest_resize "\<lambda>b w h. Inr b"]
    by blast
qed

end
