(* ===== verification/File_Handler.thy ===== *)
theory File_Handler
  imports Cleaner
begin

text \<open>
  The format dispatcher of src/src/file_handler.rs: \<open>FileHandler\<close>, its constructor,
  \<open>clean\<close>, which picks a handler by the file's extension, and the handlers. A zip
  archive goes to the cleaning pass; a tar or rar archive is first converted to
  \<open><name>.zip\<close> (\<open>tar_to_zip\<close>, \<open>rar_to_zip\<close>); images, gifs and videos are touched up or
  transcoded. The libraries the handlers drive (the tar and unrar readers, image
  decoding and saving, the clock, the \<open>ffmpeg\<close> process) are parameters collected in
  \<open>fh_env\<close>.
\<close>

section \<open>State and constructor\<close>

record file_handler =
  fh_dir_path :: path
  fh_file_path :: path
  fh_file_name :: string

text \<open>\<open>FileHandler::new\<close>: \<open>extract_file_info(archive_path).unwrap()\<close>.\<close>

definition FileHandler_new :: "path \<Rightarrow> file_handler outcome" where
  "FileHandler_new p =
     (case extract_file_info p of
        Ok (file_name, dir_path) \<Rightarrow>
          Ok \<lparr>fh_dir_path = dir_path, fh_file_path = p, fh_file_name = file_name\<rparr>
      | Err e \<Rightarrow> Panic ''called `Result::unwrap()` on an `Err` value''
      | Panic m \<Rightarrow> Panic m)"

text \<open>
  \<open>Path::extension\<close>: the part of the file name after its last dot, unless there is no
  dot or the only dot starts the name.
\<close>

definition path_extension :: "path \<Rightarrow> string option" where
  "path_extension p =
     (case path_file_name p of
        None \<Rightarrow> None
      | Some f \<Rightarrow> (case rsplit_once (CHR ''.'') f of
                    None \<Rightarrow> None
                  | Some (before, after) \<Rightarrow> if before = [] then None else Some after))"

text \<open>\<open>Path::display\<close>.\<close>

fun path_display :: "path \<Rightarrow> string" where
  "path_display [] = []"
| "path_display [x] = x"
| "path_display (x # xs) = x @ ''/'' @ path_display xs"

section \<open>The environment\<close>

text \<open>
  One item of the unrar reader: an entry with its name and data, a header that fails to
  read (\<open>read_header().expect("read header")\<close>), or an entry whose data fails to read
  (\<open>header.read().expect("read data")\<close>).
\<close>

datatype rar_item = RarEntry string bytes | RarHeaderError | RarDataError string

text \<open>
  The collaborators: the cleaning pass's decoder, resamplers, encoder and thread
  schedule; the tar and unrar readers (\<open>None\<close>: the archive cannot be read or opened);
  image decoding of a file; saving in a format (the encoded bytes or the encoder's
  error); the clock in seconds; the \<open>ffmpeg\<close> run (it cannot be started, or it exits with
  a status, its standard error, and the bytes it wrote to its output, if any).
\<close>

record fh_env =
  env_dec :: decoder
  env_resize :: resampler
  env_thumb :: resampler
  env_enc :: webp_encoder
  env_order :: "nat list"
  env_tar :: "fobj \<Rightarrow> (string \<times> bytes) list option"
  env_rar :: "fobj \<Rightarrow> rar_item list option"
  env_read_image :: "fobj \<Rightarrow> image option"
  env_save :: "string \<Rightarrow> image \<Rightarrow> string + bytes"
  env_clock :: nat
  env_ffmpeg :: "fobj option \<Rightarrow> string + (bool \<times> string \<times> bytes option)"

section \<open>Zip, tar and rar\<close>

text \<open>
  \<open>FileHandler::clean_archive_file\<close>: run the cleaning pass on \<open>file_path\<close> with
  \<open>max_images_to_check = 5\<close>, print its outcome, and return \<open>Ok\<close> whatever it was.
\<close>

definition fh_clean_archive_file :: "fh_env \<Rightarrow> file_handler \<Rightarrow> unit st" where
  "fh_clean_archive_file env fh s =
     (case clean_archive_file (env_dec env) (env_resize env) (env_thumb env) (env_enc env) (env_order env)
             (ArchiveCleaner_new (fh_file_path fh)) 5 s of
        (Panic m, s') \<Rightarrow> (Panic m, s')
      | (_, s') \<Rightarrow> (Ok (), s'))"

definition handle_zip_file :: "fh_env \<Rightarrow> file_handler \<Rightarrow> unit st" where
  "handle_zip_file env fh s =
     (case fh_clean_archive_file env fh s of
        (Ok _, s') \<Rightarrow> (Ok (), s')
      | (Err e, s') \<Rightarrow> (Err (OtherErr (''Failed to clean archive: '' @ err_msg e)), s')
      | (Panic m, s') \<Rightarrow> (Panic m, s'))"

text \<open>\<open>format!("{prefix}: {e}")\<close> on the error of a step.\<close>

definition with_context :: "string \<Rightarrow> 'a st \<Rightarrow> 'a st" where
  "with_context msg m s =
     (case m s of
        (Err e, s') \<Rightarrow> (Err (OtherErr (msg @ '': '' @ err_msg e)), s')
      | r \<Rightarrow> r)"

text \<open>
  The loop of \<open>tar_to_zip\<close> over the tar entries: \<open>start_file(path, default)\<close> (the
  default method is Deflated), \<open>read_to_end\<close> of the entry, \<open>write_all\<close>; entry \<open>i\<close> of
  the tar file at \<open>tp\<close> is the head of the list.
\<close>

fun tar_copy :: "path \<Rightarrow> nat \<Rightarrow> (string \<times> bytes) list \<Rightarrow> zip_writer \<Rightarrow> zip_writer st" where
  "tar_copy tp i [] w = st_return w"
| "tar_copy tp i ((name, data) # ents) w =
     st_bind (with_context ''Failed to start zip file entry'' (start_file name Deflated w))
       (\<lambda>w. \<lambda>s. if fs_fails s (ReadEntry tp i)
                then (Err (OtherErr (''Failed to read tar entry data: '' @ err_msg (OsError (ReadEntry tp i)))), s)
                else st_bind (with_context ''Failed to write data to zip file'' (write_all data w))
                       (tar_copy tp (Suc i) ents) s)"

text \<open>
  \<open>tar_to_zip\<close>: open the tar file, create the zip file, copy every entry, finish the
  zip. An early return drops the writer, which then writes its central directory.
\<close>

definition tar_to_zip :: "fh_env \<Rightarrow> file_handler \<Rightarrow> path \<Rightarrow> unit st" where
  "tar_to_zip env fh zip_path s =
     (case with_context ''Failed to open tar file'' (file_open (fh_file_path fh)) s of
        (Ok tar_file, s0) \<Rightarrow>
          (case with_context ''Failed to create zip file'' (file_create zip_path) s0 of
             (Ok zip_file, s1) \<Rightarrow>
               (let zip_writer = ZipWriter_new zip_file zip_path
                in case fs_inode s1 tar_file of
                     None \<Rightarrow> (Err (OtherErr ''Failed to read tar entries''), zip_drop zip_writer s1)
                   | Some f \<Rightarrow>
                       (case env_tar env f of
                          None \<Rightarrow> (Err (OtherErr ''Failed to read tar entries''), zip_drop zip_writer s1)
                        | Some ents \<Rightarrow>
                            (case tar_copy (fh_file_path fh) 0 ents zip_writer s1 of
                               (Ok w, s2) \<Rightarrow> with_context ''Failed to finish zip archive'' (zip_finish w) s2
                             | (Err e, s2) \<Rightarrow> (Err e, zip_drop zip_writer s2)
                             | (Panic m, s2) \<Rightarrow> (Panic m, zip_drop zip_writer s2))))
           | (Err e, s1) \<Rightarrow> (Err e, s1)
           | (Panic m, s1) \<Rightarrow> (Panic m, s1))
      | (Err e, s0) \<Rightarrow> (Err e, s0)
      | (Panic m, s0) \<Rightarrow> (Panic m, s0))"

text \<open>
  The loop of \<open>rar_to_zip\<close>: \<open>start_file\<close> for each header, then the data
  (\<open>expect("read data")\<close>) and \<open>zip_writer.write(&data).expect("write data")\<close>, taken
  here as writing all of the data; a failed header read panics.
\<close>

fun rar_copy :: "rar_item list \<Rightarrow> zip_writer \<Rightarrow> zip_writer st" where
  "rar_copy [] w = st_return w"
| "rar_copy (RarHeaderError # items) w = (\<lambda>s. (Panic ''read header'', s))"
| "rar_copy (RarDataError name # items) w =
     st_bind (with_context ''Failed to start zip file entry'' (start_file name Deflated w))
       (\<lambda>w s. (Panic ''read data'', s))"
| "rar_copy (RarEntry name data # items) w =
     st_bind (with_context ''Failed to start zip file entry'' (start_file name Deflated w))
       (\<lambda>w s. case write_all data w s of
                (Ok w', s') \<Rightarrow> rar_copy items w' s'
              | (_, s') \<Rightarrow> (Panic ''write data'', s'))"

definition rar_to_zip :: "fh_env \<Rightarrow> file_handler \<Rightarrow> path \<Rightarrow> unit st" where
  "rar_to_zip env fh zip_path s =
     (case with_context ''Failed to open RAR file'' (file_open (fh_file_path fh)) s of
        (Ok rar_file, s0) \<Rightarrow>
          (case (case fs_inode s0 rar_file of None \<Rightarrow> None | Some f \<Rightarrow> env_rar env f) of
             None \<Rightarrow> (Err (OtherErr ''Failed to open RAR file''), s0)
           | Some items \<Rightarrow>
               (case with_context ''Failed to create zip file'' (file_create zip_path) s0 of
                  (Ok zip_file, s1) \<Rightarrow>
                    (let zip_writer = ZipWriter_new zip_file zip_path
                     in case rar_copy items zip_writer s1 of
                          (Ok w, s2) \<Rightarrow> with_context ''Failed to finish zip archive'' (zip_finish w) s2
                        | (Err e, s2) \<Rightarrow> (Err e, zip_drop zip_writer s2)
                        | (Panic m, s2) \<Rightarrow> (Panic m, zip_drop zip_writer s2))
                | (Err e, s1) \<Rightarrow> (Err e, s1)
                | (Panic m, s1) \<Rightarrow> (Panic m, s1)))
      | (Err e, s0) \<Rightarrow> (Err e, s0)
      | (Panic m, s0) \<Rightarrow> (Panic m, s0))"

text \<open>The zip file the conversions write: \<open>dir_path.join(format!("{}.zip", file_name))\<close>.\<close>

definition zip_path_of :: "file_handler \<Rightarrow> path" where
  "zip_path_of fh = fh_dir_path fh @ [fh_file_name fh @ ''.zip'']"

definition handle_rar_file :: "fh_env \<Rightarrow> file_handler \<Rightarrow> unit st" where
  "handle_rar_file env fh s =
     (case rar_to_zip env fh (zip_path_of fh) s of
        (Ok _, s1) \<Rightarrow> handle_zip_file env fh s1
      | (Err e, s1) \<Rightarrow> (Err (OtherErr (''Failed to extract RAR file: '' @ err_msg e)), s1)
      | (Panic m, s1) \<Rightarrow> (Panic m, s1))"

definition handle_tar_file :: "fh_env \<Rightarrow> file_handler \<Rightarrow> unit st" where
  "handle_tar_file env fh s =
     (case tar_to_zip env fh (zip_path_of fh) s of
        (Ok _, s1) \<Rightarrow> handle_zip_file env fh s1
      | (Err e, s1) \<Rightarrow> (Err (OtherErr (''Failed to handle TAR file: '' @ err_msg e)), s1)
      | (Panic m, s1) \<Rightarrow> (Panic m, s1))"

section \<open>Images, gifs, videos and subtitles\<close>

text \<open>
  \<open>ImageReader::open(path)\<close> and \<open>decode()\<close>, each error with its context message.
\<close>

definition open_image :: "fh_env \<Rightarrow> string \<Rightarrow> path \<Rightarrow> image st" where
  "open_image env what p s =
     (case with_context (''Failed to open '' @ what) (file_open p) s of
        (Ok ino, s0) \<Rightarrow>
          (case (case fs_inode s0 ino of None \<Rightarrow> None | Some f \<Rightarrow> env_read_image env f) of
             Some img \<Rightarrow> (Ok img, s0)
           | None \<Rightarrow> (Err (OtherErr (''Failed to decode '' @ what)), s0))
      | (Err e, s0) \<Rightarrow> (Err e, s0)
      | (Panic m, s0) \<Rightarrow> (Panic m, s0))"

text \<open>
  \<open>handle_image_file\<close>: decode the image, return early for a \<open>webp\<close> file, shrink (or
  enlarge) it into the \<open>IMAGE_SIZE\<close> box, save it as \<open><name>.webp\<close>, or as
  \<open><name>_<seconds>.webp\<close> when that name exists, then remove the original.
\<close>

definition handle_image_file :: "fh_env \<Rightarrow> file_handler \<Rightarrow> unit st" where
  "handle_image_file env fh s =
     (case open_image env ''image'' (fh_file_path fh) s of
        (Ok img, s0) \<Rightarrow>
          (if path_extension (fh_file_path fh) = Some ''webp'' then (Ok (), s0)
           else
             let image = thumbnail (env_thumb env) img (fst IMAGE_SIZE) (snd IMAGE_SIZE);
                 webp_file_path = fh_dir_path fh @ [fh_file_name fh @ ''.webp''];
                 target = (if \<not> path_exists webp_file_path s0 then webp_file_path
                           else fh_dir_path fh @ [fh_file_name fh @ ''_'' @ string_of_nat (env_clock env) @ ''.webp''])
             in case with_context ''Failed to save image as webp'' (file_save target (env_save env ''webp'' image)) s0 of
                  (Ok _, s1) \<Rightarrow> with_context ''Failed to remove old file'' (fs_remove (fh_file_path fh)) s1
                | (Err e, s1) \<Rightarrow> (Err e, s1)
                | (Panic m, s1) \<Rightarrow> (Panic m, s1))
      | (Err e, s0) \<Rightarrow> (Err e, s0)
      | (Panic m, s0) \<Rightarrow> (Panic m, s0))"

text \<open>
  \<open>handle_gif_file\<close>: a gif larger than the box in both directions is shrunk and saved
  as \<open><name>.gif\<close>; any other gif is left as it is.
\<close>

definition handle_gif_file :: "fh_env \<Rightarrow> file_handler \<Rightarrow> unit st" where
  "handle_gif_file env fh s =
     (case open_image env ''gif file'' (fh_file_path fh) s of
        (Ok gif_image, s0) \<Rightarrow>
          (if fst IMAGE_SIZE < img_width gif_image \<and> snd IMAGE_SIZE < img_height gif_image
           then with_context ''Failed to save gif file''
                  (file_save (fh_dir_path fh @ [fh_file_name fh @ ''.gif''])
                     (env_save env ''gif'' (thumbnail (env_thumb env) gif_image (fst IMAGE_SIZE) (snd IMAGE_SIZE)))) s0
           else (Ok (), s0))
      | (Err e, s0) \<Rightarrow> (Err e, s0)
      | (Panic m, s0) \<Rightarrow> (Panic m, s0))"

text \<open>
  The \<open>ffmpeg\<close> command of \<open>handle_video_file\<close>: \<open>Command::new("ffmpeg")\<close> with the
  arguments \<open>-i <file> -c:v libx264 ... <dir>/<name>.mp4\<close>, run by \<open>output()\<close>. The
  arguments have no \<open>-y\<close> and \<open>output()\<close> gives the child a closed standard input, so
  when the output path already exists \<open>ffmpeg\<close> asks whether to overwrite it, reads end of
  file, writes nothing and exits with a failing status. Otherwise the run is the
  environment's \<open>env_ffmpeg\<close> on the input file.
\<close>

definition run_ffmpeg :: "fh_env \<Rightarrow> fobj option \<Rightarrow> path \<Rightarrow> fs \<Rightarrow> string + (bool \<times> string \<times> bytes option)" where
  "run_ffmpeg env input out s =
     (if fs_dir s out \<noteq> None
      then Inr (False, ''File '' @ path_display out @ '' already exists. Overwrite? [y/N] Not overwriting - exiting'', None)
      else env_ffmpeg env input)"

text \<open>
  \<open>handle_video_file\<close>: run the \<open>ffmpeg\<close> command; a failure to start it or a failing
  status is an error; otherwise the original file is removed. The bytes \<open>ffmpeg\<close> writes,
  if any, become the file at its output path.
\<close>

definition handle_video_file :: "fh_env \<Rightarrow> file_handler \<Rightarrow> unit st" where
  "handle_video_file env fh s =
     (let out = fh_dir_path fh @ [fh_file_name fh @ ''.mp4''];
          input = (case fs_dir s (fh_file_path fh) of None \<Rightarrow> None | Some ino \<Rightarrow> fs_inode s ino)
      in case run_ffmpeg env input out s of
           Inl e \<Rightarrow> (Err (OtherErr (''Failed to execute ffmpeg command: '' @ e)), s)
         | Inr (success, stderr, written) \<Rightarrow>
             (let s1 = (case written of
                          None \<Rightarrow> s
                        | Some data \<Rightarrow> snd (file_save out (Inr data) s))
              in if \<not> success then (Err (OtherErr (''FFmpeg command failed: '' @ stderr)), s1)
                 else with_context ''Failed to remove old video file'' (fs_remove (fh_file_path fh)) s1))"

definition handle_subtitle_file :: "fh_env \<Rightarrow> file_handler \<Rightarrow> unit st" where
  "handle_subtitle_file env fh = st_return ()"

section \<open>Dispatch\<close>

datatype handler = HZip | HRar | HTar | HImage | HGif | HSubtitle | HVideo | HUnsupported

text \<open>The \<open>match\<close> of \<open>clean\<close> on \<open>file_path.extension()\<close>.\<close>

definition dispatch :: "string option \<Rightarrow> handler" where
  "dispatch ext =
     (case ext of
        None \<Rightarrow> HUnsupported
      | Some e \<Rightarrow>
          if e = ''zip'' then HZip
          else if e = ''rar'' then HRar
          else if e \<in> set [''tar'', ''gz''] then HTar
          else if e \<in> set [''jpg'', ''jpeg'', ''png'', ''bmp''] then HImage
          else if e = ''gif'' then HGif
          else if e \<in> set [''srt'', ''ass''] then HSubtitle
          else if e \<in> set [''mp4'', ''mkv''] then HVideo
          else HUnsupported)"

definition clean :: "fh_env \<Rightarrow> file_handler \<Rightarrow> unit st" where
  "clean env fh s =
     (case dispatch (path_extension (fh_file_path fh)) of
        HZip \<Rightarrow> handle_zip_file env fh s
      | HRar \<Rightarrow> handle_rar_file env fh s
      | HTar \<Rightarrow> handle_tar_file env fh s
      | HImage \<Rightarrow> handle_image_file env fh s
      | HGif \<Rightarrow> handle_gif_file env fh s
      | HSubtitle \<Rightarrow> handle_subtitle_file env fh s
      | HVideo \<Rightarrow> handle_video_file env fh s
      | HUnsupported \<Rightarrow> (Err (OtherErr (''Unsupported file format: '' @ path_display (fh_file_path fh))), s))"

definition get_supported_extensions :: "string list" where
  "get_supported_extensions =
     [''zip'', ''rar'', ''tar'', ''gz'', ''jpg'', ''jpeg'', ''png'', ''bmp'', ''gif'', ''webp'', ''mp4'', ''mkv'',
      ''srt'', ''ass'']"

section \<open>Lemmas\<close>

text \<open>The zip entries a tar archive converts to: same names and data, Deflated.\<close>

definition tar_zip_entries :: "(string \<times> bytes) list \<Rightarrow> zip_entry list" where
  "tar_zip_entries ents = map (\<lambda>(n, d). \<lparr>entry_name = n, entry_method = Deflated, entry_data = d\<rparr>) ents"

lemma tar_zip_entries_simps [simp]:
  "tar_zip_entries [] = []"
  "tar_zip_entries ((n, d) # ents) = \<lparr>entry_name = n, entry_method = Deflated, entry_data = d\<rparr> # tar_zip_entries ents"
  by (simp_all add: tar_zip_entries_def)

lemma with_context_Ok [simp]: "m s = (Ok a, s') \<Longrightarrow> with_context msg m s = (Ok a, s')"
  by (simp add: with_context_def)

lemma tar_copy_ok:
  assumes "writes_succeed s" and "distinct (map fst ents)"
    and "\<forall>n \<in> fst ` set ents. n \<notin> entry_name ` set (zw_entries w)"
  shows "tar_copy tp i ents w s =
           (Ok (w\<lparr>zw_entries := zw_entries w @ tar_zip_entries ents\<rparr>),
            if ents = [] then s else zw_store (w\<lparr>zw_entries := zw_entries w @ tar_zip_entries ents\<rparr>) s)"
  using assms
proof (induction ents arbitrary: i w s)
  case Nil
  then show ?case by (simp add: st_return_def)
next
  case (Cons ent ents)
  obtain n d where ent: "ent = (n, d)" by fastforce
  let ?w1 = "w\<lparr>zw_entries := zw_entries w @ [\<lparr>entry_name = n, entry_method = Deflated, entry_data = d\<rparr>]\<rparr>"
  let ?w0 = "w\<lparr>zw_entries := zw_entries w @ [\<lparr>entry_name = n, entry_method = Deflated, entry_data = []\<rparr>]\<rparr>"
  have fresh: "n \<notin> entry_name ` set (zw_entries w)" using Cons.prems(3) ent by simp
  have sf: "start_file n Deflated w s = (Ok ?w0, zw_store ?w0 s)"
    using Cons.prems(1) fresh by (simp add: start_file_def Let_def)
  have wa: "write_all d ?w0 (zw_store ?w0 s) = (Ok ?w1, zw_store ?w1 (zw_store ?w0 s))"
    using Cons.prems(1) by (simp add: write_all_def Let_def)
  have ws1: "writes_succeed (zw_store ?w1 s)" using Cons.prems(1) by simp
  have fr1: "\<forall>m \<in> fst ` set ents. m \<notin> entry_name ` set (zw_entries ?w1)"
    using Cons.prems(2,3) ent by auto
  have ih: "tar_copy tp (Suc i) ents ?w1 (zw_store ?w1 s) =
           (Ok (?w1\<lparr>zw_entries := zw_entries ?w1 @ tar_zip_entries ents\<rparr>),
            if ents = [] then zw_store ?w1 s
            else zw_store (?w1\<lparr>zw_entries := zw_entries ?w1 @ tar_zip_entries ents\<rparr>) (zw_store ?w1 s))"
    using Cons.IH [OF ws1 _ fr1] Cons.prems(2) ent by simp
  have rd: "\<not> fs_fails (zw_store ?w0 s) (ReadEntry tp i)" using Cons.prems(1) by simp
  show ?case
    using sf wa ih rd unfolding ent by (simp add: st_bind_def zw_store_def)
qed

lemma tar_to_zip_ok:
  assumes "no_faults s" and "fs_dir s (fh_file_path fh) = Some t" and "t < fs_next s"
    and "fs_inode s t = Some f" and "env_tar env f = Some ents" and "distinct (map fst ents)"
    and "fs_dir s zip_path \<noteq> Some t"
  shows "\<exists>ino s'. tar_to_zip env fh zip_path s = (Ok (), s')
           \<and> fs_dir s' = (fs_dir s)(zip_path \<mapsto> ino) \<and> ino \<noteq> t
           \<and> fs_inode s' ino = Some (ZipFile (tar_zip_entries ents) True)
           \<and> (\<forall>i. i \<noteq> ino \<longrightarrow> fs_inode s' i = fs_inode s i)
           \<and> fs_fails s' = fs_fails s"
proof -
  have ws: "writes_succeed s" using assms(1) by (rule no_faults_writes_succeed)
  have op: "file_open (fh_file_path fh) s = (Ok t, s)"
    using ws assms(2) by (simp add: file_open_def)
  obtain ino s1 where cr: "file_create zip_path s = (Ok ino, s1)"
    using file_create_ok [OF ws] by blast
  note e1 = file_create_effect [OF cr]
  have it: "ino \<noteq> t" using e1 assms(3,7) by auto
  let ?w = "ZipWriter_new ino zip_path"
  let ?w' = "?w\<lparr>zw_entries := zw_entries ?w @ tar_zip_entries ents\<rparr>"
  let ?s2 = "if ents = [] then s1 else zw_store ?w' s1"
  have ws1: "writes_succeed s1" using ws e1 by (simp add: writes_succeed_def)
  have tc: "tar_copy (fh_file_path fh) 0 ents ?w s1 = (Ok ?w', ?s2)"
    using tar_copy_ok [OF ws1 assms(6)] by (simp add: ZipWriter_new_def)
  have t1: "fs_inode s1 t = Some f" using e1 it assms(4) by simp
  have c2: "zip_contents (fs_inode ?s2 ino) = tar_zip_entries ents"
    using e1 by (simp add: zw_store_def zip_contents_def ZipWriter_new_def)
  have f2: "fs_fails ?s2 = fs_fails s" using e1 by (simp add: zw_store_def)
  let ?s3 = "?s2\<lparr>fs_inode := (fs_inode ?s2)(ino \<mapsto> ZipFile (tar_zip_entries ents) True)\<rparr>"
  have fin: "zip_finish ?w' ?s2 = (Ok (), ?s3)"
    using c2 f2 assms(1) by (simp add: zip_finish_def ZipWriter_new_def no_faults_def)
  have run: "tar_to_zip env fh zip_path s = (Ok (), ?s3)"
    using op cr t1 assms(5) tc fin by (simp add: tar_to_zip_def Let_def)
  show ?thesis
    using run e1 it f2 by (intro exI [of _ ino] exI [of _ ?s3]) (auto simp: zw_store_def ZipWriter_new_def)
qed

lemma round_ge_nat:
  fixes x :: rat
  assumes "of_nat n \<le> x"
  shows "n \<le> nat (round x)"
proof -
  have "round (of_nat n :: rat) \<le> round x" using assms by (rule round_mono)
  then show ?thesis by simp
qed

text \<open>A box at least as large as the image never shrinks it.\<close>

lemma resize_dimensions_enlarges:
  assumes "0 < unat iw" "0 < unat ih" "unat iw \<le> unat nw_bound" "unat ih \<le> unat nh_bound"
  shows "iw \<le> fst (resize_dimensions iw ih nw_bound nh_bound) \<and> ih \<le> snd (resize_dimensions iw ih nw_bound nh_bound)"
proof -
  have b: "0 < unat nw_bound" "0 < unat nh_bound" using assms by linarith+
  let ?r = "min (of_nat (unat nw_bound) / of_nat (unat iw)) (of_nat (unat nh_bound) / of_nat (unat ih) :: rat)"
  have a1: "(1::rat) \<le> of_nat (unat nw_bound) / of_nat (unat iw)"
    using assms by (simp only: le_divide_eq_1_pos of_nat_0_less_iff of_nat_le_iff)
  have a2: "(1::rat) \<le> of_nat (unat nh_bound) / of_nat (unat ih)"
    using assms by (simp only: le_divide_eq_1_pos of_nat_0_less_iff of_nat_le_iff)
  have r1: "1 \<le> ?r" using a1 a2 by (simp only: min.bounded_iff)
  have m1: "of_nat (unat iw) \<le> of_nat (unat iw) * ?r"
    using mult_left_mono [OF r1 of_nat_0_le_iff [of "unat iw"]] by (simp only: mult_1_right)
  have m2: "of_nat (unat ih) \<le> of_nat (unat ih) * ?r"
    using mult_left_mono [OF r1 of_nat_0_le_iff [of "unat ih"]] by (simp only: mult_1_right)
  have "unat iw \<le> nat (round (of_nat (unat iw) * ?r))" "unat ih \<le> nat (round (of_nat (unat ih) * ?r))"
    by (rule round_ge_nat [OF m1], rule round_ge_nat [OF m2])
  then show ?thesis
    using resize_dimensions_unat [OF assms(1,2) b] by (simp add: word_le_nat_alt le_max_iff_disj)
qed

lemma fh_clean_archive_file_read_fails:
  assumes "\<And>images. fst (read_images_from_archive (env_dec env) (ArchiveCleaner_new (fh_file_path fh)) s) \<noteq> Ok images"
    and "\<And>m. fst (read_images_from_archive (env_dec env) (ArchiveCleaner_new (fh_file_path fh)) s) \<noteq> Panic m"
  shows "fh_clean_archive_file env fh s = (Ok (), s)"
proof -
  obtain e where "fst (read_images_from_archive (env_dec env) (ArchiveCleaner_new (fh_file_path fh)) s) = Err e"
    using assms by (cases "fst (read_images_from_archive (env_dec env) (ArchiveCleaner_new (fh_file_path fh)) s)") auto
  then have "read_images_from_archive (env_dec env) (ArchiveCleaner_new (fh_file_path fh)) s = (Err e, s)"
    using read_images_state by (metis prod.collapse)
  then show ?thesis by (simp add: fh_clean_archive_file_def clean_archive_file_def)
qed

lemma file_save_ok:
  assumes "\<not> fs_fails s (Create p)" and "\<not> fs_fails s (WriteFile p)"
  shows "\<exists>ino s'. file_save p (Inr data) s = (Ok (), s') \<and> fs_dir s' = (fs_dir s)(p \<mapsto> ino)
           \<and> fs_inode s' = (fs_inode s)(ino \<mapsto> Blob data) \<and> fs_fails s' = fs_fails s"
proof (cases "fs_dir s p")
  case None
  then show ?thesis using assms by (simp add: file_save_def file_create_def) blast
next
  case (Some ino)
  then have "fs_dir s = (fs_dir s)(p \<mapsto> ino)" by (simp add: fun_upd_idem)
  then show ?thesis using assms Some by (simp add: file_save_def file_create_def) metis
qed

lemma fs_remove_ok:
  "\<not> fs_fails s (Remove p) \<Longrightarrow> fs_dir s p \<noteq> None
   \<Longrightarrow> fs_remove p s = (Ok (), s\<lparr>fs_dir := (fs_dir s)(p := None)\<rparr>)"
  by (auto simp: fs_remove_def)

section \<open>Properties\<close>

text \<open>
  C28 (roundtrip): converting a tar archive loses nothing. When no operation fails and
  the entry names are distinct, \<open>tar_to_zip\<close> returns \<open>Ok\<close>, leaves the tar file as it
  was, and the zip file it writes reads back, through \<open>ZipArchive::new\<close>, as exactly the
  tar's entries: same names, same data, same order.
\<close>

theorem tar_to_zip_roundtrip:
  assumes "no_faults s" and "fs_dir s (fh_file_path fh) = Some t" and "t < fs_next s"
    and "fs_inode s t = Some f" and "env_tar env f = Some ents" and "distinct (map fst ents)"
    and "fs_dir s zip_path \<noteq> Some t"
  shows "\<exists>ino s' es. tar_to_zip env fh zip_path s = (Ok (), s')
           \<and> fs_dir s' zip_path = Some ino \<and> fs_inode s' t = Some f
           \<and> zip_archive_new ino s' = (Ok es, s')
           \<and> map (\<lambda>e. (entry_name e, entry_data e)) es = ents"
proof -
  obtain ino s' where r: "tar_to_zip env fh zip_path s = (Ok (), s')"
    and d: "fs_dir s' = (fs_dir s)(zip_path \<mapsto> ino)" and it: "ino \<noteq> t"
    and z: "fs_inode s' ino = Some (ZipFile (tar_zip_entries ents) True)"
    and o: "\<forall>i. i \<noteq> ino \<longrightarrow> fs_inode s' i = fs_inode s i"
    using tar_to_zip_ok [OF assms] by blast
  have "zip_archive_new ino s' = (Ok (tar_zip_entries ents), s')"
    using z by (simp add: zip_archive_new_def)
  moreover have "map (\<lambda>e. (entry_name e, entry_data e)) (tar_zip_entries ents) = ents"
    by (induction ents) auto
  ultimately show ?thesis using r d it o assms(4) by fastforce
qed

theorem tar_to_zip_roundtrip_witness:
  "no_faults \<lparr>fs_dir = [[''d'', ''a.tar''] \<mapsto> 0], fs_inode = [0 \<mapsto> Blob [1]], fs_next = 1, fs_fails = (\<lambda>_. False)\<rparr>
   \<and> (\<exists>ino s' es. tar_to_zip \<lparr>env_dec = (\<lambda>_. None), env_resize = nearest_resize, env_thumb = nearest_resize,
                     env_enc = (\<lambda>b w h. Inr b), env_order = [],
                     env_tar = (\<lambda>_. Some [(''p1.jpg'', [7]), (''p2.jpg'', [8])]), env_rar = (\<lambda>_. None),
                     env_read_image = (\<lambda>_. None), env_save = (\<lambda>_ _. Inr []), env_clock = 0,
                     env_ffmpeg = (\<lambda>_. Inl [])\<rparr>
                   \<lparr>fh_dir_path = [''d''], fh_file_path = [''d'', ''a.tar''], fh_file_name = ''a''\<rparr> [''d'', ''a.zip'']
                   \<lparr>fs_dir = [[''d'', ''a.tar''] \<mapsto> 0], fs_inode = [0 \<mapsto> Blob [1]], fs_next = 1, fs_fails = (\<lambda>_. False)\<rparr>
                 = (Ok (), s')
          \<and> fs_dir s' [''d'', ''a.zip''] = Some ino
          \<and> zip_archive_new ino s' = (Ok es, s')
          \<and> map (\<lambda>e. (entry_name e, entry_data e)) es = [(''p1.jpg'', [7]), (''p2.jpg'', [8])])"
proof -
  let ?s = "\<lparr>fs_dir = [[''d'', ''a.tar''] \<mapsto> 0], fs_inode = [0 \<mapsto> Blob [1]], fs_next = 1, fs_fails = (\<lambda>_. False)\<rparr>"
  let ?env = "\<lparr>env_dec = (\<lambda>_. None), env_resize = nearest_resize, env_thumb = nearest_resize,
              env_enc = (\<lambda>b w h. Inr b), env_order = [],
              env_tar = (\<lambda>_. Some [(''p1.jpg'', [7]), (''p2.jpg'', [8])]), env_rar = (\<lambda>_. None),
              env_read_image = (\<lambda>_. None), env_save = (\<lambda>_ _. Inr []), env_clock = 0,
              env_ffmpeg = (\<lambda>_. Inl [])\<rparr>"
  let ?fh = "\<lparr>fh_dir_path = [''d''], fh_file_path = [''d'', ''a.tar''], fh_file_name = ''a''\<rparr>"
  have h1: "no_faults ?s" by (simp add: no_faults_def)
  have h2: "fs_dir ?s (fh_file_path ?fh) = Some 0" by simp
  have h3: "(0::nat) < fs_next ?s" by simp
  have h4: "fs_inode ?s 0 = Some (Blob [1])" by simp
  have h5: "env_tar ?env (Blob [1]) = Some [(''p1.jpg'', [7]), (''p2.jpg'', [8])]" by simp
  have h6: "distinct (map fst [(''p1.jpg'', [7::byte]), (''p2.jpg'', [8])])" by simp
  have h7: "fs_dir ?s [''d'', ''a.zip''] \<noteq> Some 0" by simp
  show ?thesis using h1 tar_to_zip_roundtrip [OF h1 h2 h3 h4 h5 h6 h7]
    by (elim exE conjE) (intro conjI exI; assumption)
qed

text \<open>
  C29 (error): a converted tar archive is never cleaned. \<open>handle_tar_file\<close> writes
  \<open><name>.zip\<close> and then calls \<open>handle_zip_file\<close>, whose cleaner opens the original
  \<open>.tar\<close> path, not the zip. The tar file is no zip container, so the read fails, the
  failure is swallowed, and \<open>clean\<close> returns \<open>Ok\<close> with the zip holding the raw tar
  entries and no \<open>.cbz\<close> written: the only change to the directory is the new zip.
\<close>

theorem tar_conversion_not_cleaned:
  assumes "no_faults s" and "path_extension (fh_file_path fh) = Some ''tar''"
    and "fs_dir s (fh_file_path fh) = Some t" and "t < fs_next s" and "fs_inode s t = Some (Blob b)"
    and "env_tar env (Blob b) = Some ents" and "distinct (map fst ents)"
    and "fs_dir s (zip_path_of fh) \<noteq> Some t"
  shows "\<exists>ino s'. clean env fh s = (Ok (), s') \<and> fs_dir s' = (fs_dir s)(zip_path_of fh \<mapsto> ino)
           \<and> fs_inode s' ino = Some (ZipFile (tar_zip_entries ents) True)"
proof -
  obtain ino s1 where r: "tar_to_zip env fh (zip_path_of fh) s = (Ok (), s1)"
    and d: "fs_dir s1 = (fs_dir s)(zip_path_of fh \<mapsto> ino)" and it: "ino \<noteq> t"
    and z: "fs_inode s1 ino = Some (ZipFile (tar_zip_entries ents) True)"
    and o: "\<forall>i. i \<noteq> ino \<longrightarrow> fs_inode s1 i = fs_inode s i" and f: "fs_fails s1 = fs_fails s"
    using tar_to_zip_ok [OF assms(1,3,4,5,6,7,8)] by blast
  have ne: "fh_file_path fh \<noteq> zip_path_of fh" using assms(3,8) by auto
  have "read_images_from_archive (env_dec env) (ArchiveCleaner_new (fh_file_path fh)) s1
          = (Err (ZipErr ''invalid Zip archive''), s1)"
    using d o f it ne assms(1,3,5)
    by (simp add: read_images_from_archive_def st_bind_def file_open_def zip_archive_new_def
                  ArchiveCleaner_new_def no_faults_def)
  then have "fh_clean_archive_file env fh s1 = (Ok (), s1)"
    by (intro fh_clean_archive_file_read_fails) simp_all
  then have "clean env fh s = (Ok (), s1)"
    using r assms(2) by (simp add: clean_def dispatch_def handle_tar_file_def handle_zip_file_def)
  then show ?thesis using d z by blast
qed

theorem tar_conversion_not_cleaned_witness:
  "\<exists>ino s'. clean \<lparr>env_dec = (\<lambda>_. Some (new_rgba8 2000 2000)), env_resize = nearest_resize,
                   env_thumb = nearest_resize, env_enc = (\<lambda>b w h. Inr b), env_order = [],
                   env_tar = (\<lambda>_. Some [(''p1.jpg'', [7])]), env_rar = (\<lambda>_. None),
                   env_read_image = (\<lambda>_. None), env_save = (\<lambda>_ _. Inr []), env_clock = 0,
                   env_ffmpeg = (\<lambda>_. Inl [])\<rparr>
                 \<lparr>fh_dir_path = [''d''], fh_file_path = [''d'', ''a.tar''], fh_file_name = ''a''\<rparr>
                 \<lparr>fs_dir = [[''d'', ''a.tar''] \<mapsto> 0], fs_inode = [0 \<mapsto> Blob [1]], fs_next = 1, fs_fails = (\<lambda>_. False)\<rparr>
               = (Ok (), s')
      \<and> fs_dir s' = [[''d'', ''a.tar''] \<mapsto> 0, [''d'', ''a.zip''] \<mapsto> ino]
      \<and> fs_inode s' ino = Some (ZipFile [\<lparr>entry_name = ''p1.jpg'', entry_method = Deflated, entry_data = [7]\<rparr>] True)"
proof -
  let ?s = "\<lparr>fs_dir = [[''d'', ''a.tar''] \<mapsto> 0], fs_inode = [0 \<mapsto> Blob [1]], fs_next = 1, fs_fails = (\<lambda>_. False)\<rparr>"
  let ?env = "\<lparr>env_dec = (\<lambda>_. Some (new_rgba8 2000 2000)), env_resize = nearest_resize,
              env_thumb = nearest_resize, env_enc = (\<lambda>b w h. Inr b), env_order = [],
              env_tar = (\<lambda>_. Some [(''p1.jpg'', [7])]), env_rar = (\<lambda>_. None),
              env_read_image = (\<lambda>_. None), env_save = (\<lambda>_ _. Inr []), env_clock = 0,
              env_ffmpeg = (\<lambda>_. Inl [])\<rparr>"
  let ?fh = "\<lparr>fh_dir_path = [''d''], fh_file_path = [''d'', ''a.tar''], fh_file_name = ''a''\<rparr>"
  have h1: "no_faults ?s" by (simp add: no_faults_def)
  have h2: "path_extension (fh_file_path ?fh) = Some ''tar''"
    by (simp add: path_extension_def path_file_name_def rsplit_once_def)
  have h3: "fs_dir ?s (fh_file_path ?fh) = Some 0" by simp
  have h4: "(0::nat) < fs_next ?s" by simp
  have h5: "fs_inode ?s 0 = Some (Blob [1])" by simp
  have h6: "env_tar ?env (Blob [1]) = Some [(''p1.jpg'', [7])]" by simp
  have h7: "distinct (map fst [(''p1.jpg'', [7::byte])])" by simp
  have h8: "fs_dir ?s (zip_path_of ?fh) \<noteq> Some 0" by (simp add: zip_path_of_def)
  have zp: "zip_path_of ?fh = [''d'', ''a.zip'']" by (simp add: zip_path_of_def)
  show ?thesis
    using tar_conversion_not_cleaned [OF h1 h2 h3 h4 h5 h6 h7 h8] unfolding zp
    by (simp add: tar_zip_entries_def)
qed

text \<open>
  C30 (error): the extensions \<open>clean\<close> accepts are exactly those
  \<open>get_supported_extensions\<close> advertises, less \<open>webp\<close>: a \<open>.webp\<close> file is listed as
  supported but \<open>clean\<close> rejects it as an unsupported format, so the \<open>webp\<close> early
  return of \<open>handle_image_file\<close> is unreachable through \<open>clean\<close>.
\<close>

theorem dispatch_supported_extensions:
  "{e. dispatch (Some e) \<noteq> HUnsupported} = set get_supported_extensions - {''webp''}"
  by (auto simp: dispatch_def get_supported_extensions_def)

text \<open>
  \<open>handle_zip_file\<close> never returns an error. \<open>clean_archive_file\<close> of the
  file handler discards the cleaner's result, so the \<open>Failed to clean archive\<close> branch
  of \<open>handle_zip_file\<close> is dead and a zip that cannot be read or written is reported
  as cleaned.
\<close>

theorem handle_zip_file_never_err:
  "fst (handle_zip_file env fh s) \<noteq> Err e"
  by (auto simp: handle_zip_file_def fh_clean_archive_file_def split: prod.split outcome.split)

text \<open>
  \<open>FileHandler::new\<close> panics exactly on a path without a file name
  (empty, or ending in \<open>..\<close>); otherwise the handler holds the parent directory, the
  path, and the file name up to its last dot.
\<close>

theorem FileHandler_new_result:
  "FileHandler_new p =
     (if p = [] \<or> last p = ''..'' then Panic ''called `Result::unwrap()` on an `Err` value''
      else Ok \<lparr>fh_dir_path = butlast p, fh_file_path = p,
               fh_file_name = (case rsplit_once (CHR ''.'') (last p) of Some (n, _) \<Rightarrow> n | None \<Rightarrow> last p)\<rparr>)"
  by (simp add: FileHandler_new_def extract_file_info_def path_file_name_def path_parent_def Let_def)

text \<open>
  C32 (functional): converting an image. When nothing fails, the file decodes, it is no
  \<open>.webp\<close> file and \<open><name>.webp\<close> does not exist yet, \<open>handle_image_file\<close> returns
  \<open>Ok\<close>; the directory then maps \<open><name>.webp\<close> to a file holding the saver's bytes for
  the thumbnail of the image in the \<open>IMAGE_SIZE\<close> box, and the original path is gone.
\<close>

theorem handle_image_file_converts:
  assumes "no_faults s" and "fs_dir s (fh_file_path fh) = Some i" and "fs_inode s i = Some f"
    and "env_read_image env f = Some img" and "path_extension (fh_file_path fh) \<noteq> Some ''webp''"
    and "fs_dir s (fh_dir_path fh @ [fh_file_name fh @ ''.webp'']) = None"
    and "env_save env ''webp'' (thumbnail (env_thumb env) img (fst IMAGE_SIZE) (snd IMAGE_SIZE)) = Inr data"
  shows "\<exists>ino s'. handle_image_file env fh s = (Ok (), s')
           \<and> fs_dir s' = ((fs_dir s)(fh_dir_path fh @ [fh_file_name fh @ ''.webp''] \<mapsto> ino))(fh_file_path fh := None)
           \<and> fs_inode s' ino = Some (Blob data)"
proof -
  let ?w = "fh_dir_path fh @ [fh_file_name fh @ ''.webp'']"
  have nf: "\<And>op. \<not> fs_fails s op" using assms(1) by (simp add: no_faults_def)
  have oi: "open_image env ''image'' (fh_file_path fh) s = (Ok img, s)"
    using nf assms(2,3,4) by (simp add: open_image_def with_context_def file_open_def)
  obtain ino s1 where sv: "file_save ?w (Inr data) s = (Ok (), s1)"
    and d1: "fs_dir s1 = (fs_dir s)(?w \<mapsto> ino)" and i1: "fs_inode s1 = (fs_inode s)(ino \<mapsto> Blob data)"
    and f1: "fs_fails s1 = fs_fails s"
    using file_save_ok [of s ?w data] nf by blast
  have ne: "fh_file_path fh \<noteq> ?w" using assms(2,6) by auto
  have rm: "fs_remove (fh_file_path fh) s1 = (Ok (), s1\<lparr>fs_dir := (fs_dir s1)(fh_file_path fh := None)\<rparr>)"
    using nf f1 d1 ne assms(2) by (intro fs_remove_ok) simp_all
  have "handle_image_file env fh s = (Ok (), s1\<lparr>fs_dir := (fs_dir s1)(fh_file_path fh := None)\<rparr>)"
    using oi sv rm assms(5,6,7) by (simp add: handle_image_file_def path_exists_def Let_def)
  then show ?thesis using d1 i1 by auto
qed

theorem handle_image_file_converts_witness:
  "\<exists>ino s'. handle_image_file
       \<lparr>env_dec = (\<lambda>_. None), env_resize = nearest_resize, env_thumb = nearest_resize,
        env_enc = (\<lambda>b w h. Inr b), env_order = [], env_tar = (\<lambda>_. None), env_rar = (\<lambda>_. None),
        env_read_image = (\<lambda>_. Some (new_rgba8 2048 1024)), env_save = (\<lambda>_ _. Inr [5]), env_clock = 0,
        env_ffmpeg = (\<lambda>_. Inl [])\<rparr>
       \<lparr>fh_dir_path = [''d''], fh_file_path = [''d'', ''a.png''], fh_file_name = ''a''\<rparr>
       \<lparr>fs_dir = [[''d'', ''a.png''] \<mapsto> 0], fs_inode = [0 \<mapsto> Blob [1]], fs_next = 1, fs_fails = (\<lambda>_. False)\<rparr>
     = (Ok (), s')
   \<and> fs_dir s' = [[''d'', ''a.webp''] \<mapsto> ino] \<and> fs_inode s' ino = Some (Blob [5])"
proof -
  let ?s = "\<lparr>fs_dir = [[''d'', ''a.png''] \<mapsto> 0], fs_inode = [0 \<mapsto> Blob [1]], fs_next = 1, fs_fails = (\<lambda>_. False)\<rparr>"
  let ?env = "\<lparr>env_dec = (\<lambda>_. None), env_resize = nearest_resize, env_thumb = nearest_resize,
              env_enc = (\<lambda>b w h. Inr b), env_order = [], env_tar = (\<lambda>_. None), env_rar = (\<lambda>_. None),
              env_read_image = (\<lambda>_. Some (new_rgba8 2048 1024)), env_save = (\<lambda>_ _. Inr [5]), env_clock = 0,
              env_ffmpeg = (\<lambda>_. Inl [])\<rparr>"
  let ?fh = "\<lparr>fh_dir_path = [''d''], fh_file_path = [''d'', ''a.png''], fh_file_name = ''a''\<rparr>"
  have h1: "no_faults ?s" by (simp add: no_faults_def)
  have h2: "fs_dir ?s (fh_file_path ?fh) = Some 0" by simp
  have h3: "fs_inode ?s 0 = Some (Blob [1])" by simp
  have h4: "env_read_image ?env (Blob [1]) = Some (new_rgba8 2048 1024)" by simp
  have h5: "path_extension (fh_file_path ?fh) \<noteq> Some ''webp''"
    by (simp add: path_extension_def path_file_name_def rsplit_once_def)
  have h6: "fs_dir ?s (fh_dir_path ?fh @ [fh_file_name ?fh @ ''.webp'']) = None" by simp
  have h7: "env_save ?env ''webp'' (thumbnail (env_thumb ?env) (new_rgba8 2048 1024) (fst IMAGE_SIZE) (snd IMAGE_SIZE))
              = Inr [5]" by simp
  have m: "(([[''d'', ''a.png''] \<mapsto> 0])([''d'', ''a.webp''] \<mapsto> ino))([''d'', ''a.png''] := None)
             = [[''d'', ''a.webp''] \<mapsto> ino]" for ino :: nat
    by (rule ext) simp
  show ?thesis
    using handle_image_file_converts [OF h1 h2 h3 h4 h5 h6 h7] m by simp
qed

text \<open>
  The image handler enlarges small images. For an image no larger than
  the \<open>IMAGE_SIZE\<close> box, the thumbnail \<open>handle_image_file\<close> saves is at least as wide and
  as high as the original: \<open>thumbnail\<close> scales to fit the box, up as well as down.
\<close>

theorem image_thumbnail_enlarges:
  assumes "resampler_ok t" and "0 < unat (img_width img)" and "0 < unat (img_height img)"
    and "img_width img \<le> fst IMAGE_SIZE" and "img_height img \<le> snd IMAGE_SIZE"
  shows "img_width img \<le> img_width (thumbnail t img (fst IMAGE_SIZE) (snd IMAGE_SIZE))
         \<and> img_height img \<le> img_height (thumbnail t img (fst IMAGE_SIZE) (snd IMAGE_SIZE))"
proof -
  have "img_width img \<le> fst (resize_dimensions (img_width img) (img_height img) (fst IMAGE_SIZE) (snd IMAGE_SIZE))
        \<and> img_height img \<le> snd (resize_dimensions (img_width img) (img_height img) (fst IMAGE_SIZE) (snd IMAGE_SIZE))"
    using assms(2-5) by (intro resize_dimensions_enlarges) (simp_all add: word_le_nat_alt)
  then show ?thesis
    using assms(1) by (simp add: thumbnail_def resampler_ok_def split_def Let_def)
qed

theorem image_thumbnail_enlarges_witness:
  "img_width (thumbnail nearest_resize (new_rgba8 512 256) (fst IMAGE_SIZE) (snd IMAGE_SIZE)) = 1024
   \<and> img_height (thumbnail nearest_resize (new_rgba8 512 256) (fst IMAGE_SIZE) (snd IMAGE_SIZE)) \<ge> 256"
proof -
  have h1: "resampler_ok nearest_resize" by (simp add: resampler_ok_def nearest_resize_def)
  have h: "0 < unat (img_width (new_rgba8 512 256))" "0 < unat (img_height (new_rgba8 512 256))"
    "img_width (new_rgba8 512 256) \<le> fst IMAGE_SIZE" "img_height (new_rgba8 512 256) \<le> snd IMAGE_SIZE"
    by (simp_all add: new_rgba8_def IMAGE_SIZE_def)
  have "img_height (new_rgba8 512 256) \<le> img_height (thumbnail nearest_resize (new_rgba8 512 256) (fst IMAGE_SIZE) (snd IMAGE_SIZE))"
    using image_thumbnail_enlarges [OF h1 h] by blast
  moreover have "img_width (thumbnail nearest_resize (new_rgba8 512 256) (fst IMAGE_SIZE) (snd IMAGE_SIZE)) = 1024"
    by (simp add: thumbnail_def resize_dimensions_def nearest_resize_def new_rgba8_def IMAGE_SIZE_def)
  ultimately show ?thesis by (simp add: new_rgba8_def)
qed

text \<open>
  C34 (error): when \<open><dir>/<name>.mp4\<close> already exists (always the case for an \<open>.mp4\<close>
  input, whose output path is its own path), \<open>ffmpeg\<close> refuses to overwrite it and
  \<open>handle_video_file\<close> returns the \<open>FFmpeg command failed\<close> error with the file system
  unchanged: the video is kept.
\<close>

theorem handle_video_file_existing_output:
  assumes "fs_dir s (fh_dir_path fh @ [fh_file_name fh @ ''.mp4'']) \<noteq> None"
  shows "handle_video_file env fh s
           = (Err (OtherErr (''FFmpeg command failed: File '' @ path_display (fh_dir_path fh @ [fh_file_name fh @ ''.mp4''])
                  @ '' already exists. Overwrite? [y/N] Not overwriting - exiting'')), s)"
  using assms by (simp add: handle_video_file_def run_ffmpeg_def Let_def)

theorem handle_video_file_existing_output_witness:
  "handle_video_file
       \<lparr>env_dec = (\<lambda>_. None), env_resize = nearest_resize, env_thumb = nearest_resize,
        env_enc = (\<lambda>b w h. Inr b), env_order = [], env_tar = (\<lambda>_. None), env_rar = (\<lambda>_. None),
        env_read_image = (\<lambda>_. None), env_save = (\<lambda>_ _. Inr []), env_clock = 0,
        env_ffmpeg = (\<lambda>_. Inr (True, [], Some [9]))\<rparr>
       \<lparr>fh_dir_path = [''d''], fh_file_path = [''d'', ''a.mp4''], fh_file_name = ''a''\<rparr>
       \<lparr>fs_dir = [[''d'', ''a.mp4''] \<mapsto> 0], fs_inode = [0 \<mapsto> Blob [1]], fs_next = 1, fs_fails = (\<lambda>_. False)\<rparr>
   = (Err (OtherErr ''FFmpeg command failed: File d/a.mp4 already exists. Overwrite? [y/N] Not overwriting - exiting''),
      \<lparr>fs_dir = [[''d'', ''a.mp4''] \<mapsto> 0], fs_inode = [0 \<mapsto> Blob [1]], fs_next = 1, fs_fails = (\<lambda>_. False)\<rparr>)"
proof -
  let ?s = "\<lparr>fs_dir = [[''d'', ''a.mp4''] \<mapsto> 0], fs_inode = [0 \<mapsto> Blob [1]], fs_next = 1, fs_fails = (\<lambda>_. False)\<rparr>"
  let ?fh = "\<lparr>fh_dir_path = [''d''], fh_file_path = [''d'', ''a.mp4''], fh_file_name = ''a''\<rparr>"
  have h: "fs_dir ?s (fh_dir_path ?fh @ [fh_file_name ?fh @ ''.mp4'']) \<noteq> None" by simp
  show ?thesis using handle_video_file_existing_output [OF h] by simp
qed

text \<open>
  C35 (functional): when the output path does not exist yet and \<open>ffmpeg\<close> succeeds,
  \<open>handle_video_file\<close> returns \<open>Ok\<close>, the input path no longer exists, and the bytes
  \<open>ffmpeg\<close> wrote are the file at \<open><dir>/<name>.mp4\<close>.
\<close>

theorem handle_video_file_removes_input:
  assumes "no_faults s" and "fs_dir s (fh_file_path fh) = Some i"
    and "fs_dir s (fh_dir_path fh @ [fh_file_name fh @ ''.mp4'']) = None"
    and "env_ffmpeg env (fs_inode s i) = Inr (True, err, Some data)"
  shows "\<exists>s' ino. handle_video_file env fh s = (Ok (), s') \<and> fs_dir s' (fh_file_path fh) = None
           \<and> fs_dir s' (fh_dir_path fh @ [fh_file_name fh @ ''.mp4'']) = Some ino
           \<and> fs_inode s' ino = Some (Blob data)"
proof -
  let ?o = "fh_dir_path fh @ [fh_file_name fh @ ''.mp4'']"
  have nf: "\<And>op. \<not> fs_fails s op" using assms(1) by (simp add: no_faults_def)
  have ne: "fh_file_path fh \<noteq> ?o" using assms(2,3) by auto
  obtain ino s1 where sv: "file_save ?o (Inr data) s = (Ok (), s1)"
    and d1: "fs_dir s1 = (fs_dir s)(?o \<mapsto> ino)" and i1: "fs_inode s1 = (fs_inode s)(ino \<mapsto> Blob data)"
    and f1: "fs_fails s1 = fs_fails s"
    using file_save_ok [of s ?o data] nf by blast
  have rm: "fs_remove (fh_file_path fh) s1 = (Ok (), s1\<lparr>fs_dir := (fs_dir s1)(fh_file_path fh := None)\<rparr>)"
    using nf f1 d1 assms(2) by (intro fs_remove_ok) simp_all
  have "handle_video_file env fh s = (Ok (), s1\<lparr>fs_dir := (fs_dir s1)(fh_file_path fh := None)\<rparr>)"
    using sv rm assms(2,3,4) by (simp add: handle_video_file_def run_ffmpeg_def Let_def)
  then show ?thesis using d1 i1 ne by auto
qed

theorem handle_video_file_removes_input_witness:
  "\<exists>s' ino. handle_video_file
       \<lparr>env_dec = (\<lambda>_. None), env_resize = nearest_resize, env_thumb = nearest_resize,
        env_enc = (\<lambda>b w h. Inr b), env_order = [], env_tar = (\<lambda>_. None), env_rar = (\<lambda>_. None),
        env_read_image = (\<lambda>_. None), env_save = (\<lambda>_ _. Inr []), env_clock = 0,
        env_ffmpeg = (\<lambda>_. Inr (True, [], Some [9]))\<rparr>
       \<lparr>fh_dir_path = [''d''], fh_file_path = [''d'', ''a.mkv''], fh_file_name = ''a''\<rparr>
       \<lparr>fs_dir = [[''d'', ''a.mkv''] \<mapsto> 0], fs_inode = [0 \<mapsto> Blob [1]], fs_next = 1, fs_fails = (\<lambda>_. False)\<rparr>
     = (Ok (), s')
   \<and> fs_dir s' [''d'', ''a.mkv''] = None
   \<and> fs_dir s' [''d'', ''a.mp4''] = Some ino \<and> fs_inode s' ino = Some (Blob [9])"
proof -
  let ?s = "\<lparr>fs_dir = [[''d'', ''a.mkv''] \<mapsto> 0], fs_inode = [0 \<mapsto> Blob [1]], fs_next = 1, fs_fails = (\<lambda>_. False)\<rparr>"
  let ?env = "\<lparr>env_dec = (\<lambda>_. None), env_resize = nearest_resize, env_thumb = nearest_resize,
              env_enc = (\<lambda>b w h. Inr b), env_order = [], env_tar = (\<lambda>_. None), env_rar = (\<lambda>_. None),
              env_read_image = (\<lambda>_. None), env_save = (\<lambda>_ _. Inr []), env_clock = 0,
              env_ffmpeg = (\<lambda>_. Inr (True, [], Some [9]))\<rparr>"
  let ?fh = "\<lparr>fh_dir_path = [''d''], fh_file_path = [''d'', ''a.mkv''], fh_file_name = ''a''\<rparr>"
  have h1: "no_faults ?s" by (simp add: no_faults_def)
  have h2: "fs_dir ?s (fh_file_path ?fh) = Some 0" by simp
  have h3: "fs_dir ?s (fh_dir_path ?fh @ [fh_file_name ?fh @ ''.mp4'']) = None" by simp
  have h4: "env_ffmpeg ?env (fs_inode ?s 0) = Inr (True, [], Some [9])" by simp
  show ?thesis using handle_video_file_removes_input [OF h1 h2 h3 h4] by simp
qed

end
