(* ===== verification/Fs_Invariant.thy ===== *)
theory Fs_Invariant
  imports File_Handler
begin

text \<open>
  The type invariant of the file-system model: every directory entry names an
  allocated inode, and no inode at or above the allocation counter \<open>fs_next\<close> is in
  use, so \<open>File::create\<close> of a new name gets a fresh, unshared inode. Each operation of
  the development, from the primitives of \<open>std::fs\<close> and the zip crate to
  \<open>FileHandler::clean\<close>, keeps it, provided the zip writers it is given sit on
  allocated inodes, which every writer the code makes does.
\<close>

section \<open>The invariant\<close>

definition fs_wf :: "fs \<Rightarrow> bool" where
  "fs_wf s \<longleftrightarrow> (\<forall>p ino. fs_dir s p = Some ino \<longrightarrow> fs_inode s ino \<noteq> None)
              \<and> (\<forall>ino. fs_next s \<le> ino \<longrightarrow> fs_inode s ino = None)"

text \<open>A step from \<open>s\<close> to \<open>s'\<close> ends well-formed and allocates only forward.\<close>

definition wf_ok :: "fs \<Rightarrow> fs \<Rightarrow> bool" where
  "wf_ok s s' \<longleftrightarrow> fs_wf s' \<and> fs_next s \<le> fs_next s'"

definition writer_ok :: "zip_writer \<Rightarrow> fs \<Rightarrow> bool" where
  "writer_ok w s \<longleftrightarrow> zw_inode w < fs_next s"

text \<open>
  A Hoare triple for the state-exception monad: from a well-formed state satisfying
  \<open>P\<close>, the computation ends in a well-formed state, allocating only forward, and a
  normal result \<open>a\<close> satisfies \<open>Q a\<close> there.
\<close>

definition wf_st :: "(fs \<Rightarrow> bool) \<Rightarrow> 'a st \<Rightarrow> ('a \<Rightarrow> fs \<Rightarrow> bool) \<Rightarrow> bool" where
  "wf_st P m Q \<longleftrightarrow>
     (\<forall>s r s'. m s = (r, s') \<longrightarrow> fs_wf s \<longrightarrow> P s \<longrightarrow> wf_ok s s' \<and> (\<forall>a. r = Ok a \<longrightarrow> Q a s'))"

named_theorems wf_ok_rules "the operations keep the file-system invariant"

section \<open>Lemmas\<close>

lemma wf_ok_refl: "fs_wf s \<Longrightarrow> wf_ok s s"
  by (simp add: wf_ok_def)

lemma wf_ok_trans [trans]: "wf_ok s1 s2 \<Longrightarrow> wf_ok s2 s3 \<Longrightarrow> wf_ok s1 s3"
  by (simp add: wf_ok_def)

lemma wf_ok_wf: "wf_ok s s' \<Longrightarrow> fs_wf s'"
  by (simp add: wf_ok_def)

lemma writer_ok_mono: "writer_ok w s \<Longrightarrow> wf_ok s s' \<Longrightarrow> writer_ok w s'"
  by (simp add: writer_ok_def wf_ok_def)

lemma fs_wf_dir_below: "fs_wf s \<Longrightarrow> fs_dir s p = Some ino \<Longrightarrow> ino < fs_next s"
  unfolding fs_wf_def by (metis leI)

lemma fs_wf_set_inode:
  "fs_wf s \<Longrightarrow> ino < fs_next s \<Longrightarrow> fs_wf (s\<lparr>fs_inode := (fs_inode s)(ino \<mapsto> f)\<rparr>)"
  by (auto simp: fs_wf_def)

lemma wf_ok_set_inode [wf_ok_rules]:
  "fs_wf s \<Longrightarrow> ino < fs_next s \<Longrightarrow> wf_ok s (s\<lparr>fs_inode := (fs_inode s)(ino \<mapsto> f)\<rparr>)"
  by (simp add: wf_ok_def fs_wf_set_inode)

section \<open>The primitives\<close>

lemma file_open_state: "file_open p s = (r, s') \<Longrightarrow> s' = s"
  by (auto simp: file_open_def split: if_splits option.splits)

lemma file_create_wf [wf_ok_rules]:
  assumes "file_create p s = (r, s')" and "fs_wf s"
  shows "wf_ok s s' \<and> (\<forall>ino. r = Ok ino \<longrightarrow> ino < fs_next s')"
  using assms fs_wf_dir_below [OF assms(2), of p]
  by (auto simp: file_create_def wf_ok_def fs_wf_def split: if_splits option.splits)

lemma zw_store_wf [wf_ok_rules]: "fs_wf s \<Longrightarrow> writer_ok w s \<Longrightarrow> wf_ok s (zw_store w s)"
  by (simp add: zw_store_def writer_ok_def wf_ok_set_inode)

lemma start_file_wf [wf_ok_rules]:
  assumes "start_file n m w s = (r, s')" and "fs_wf s" and "writer_ok w s"
  shows "wf_ok s s' \<and> (\<forall>w'. r = Ok w' \<longrightarrow> zw_inode w' = zw_inode w)"
  using assms zw_store_wf [OF assms(2), of "w\<lparr>zw_entries := zw_entries w @ [\<lparr>entry_name = n, entry_method = m, entry_data = []\<rparr>]\<rparr>"]
  by (auto simp: start_file_def wf_ok_refl writer_ok_def Let_def split: if_splits)

lemma write_all_wf [wf_ok_rules]:
  assumes "write_all d w s = (r, s')" and "fs_wf s" and "writer_ok w s"
  shows "wf_ok s s' \<and> (\<forall>w'. r = Ok w' \<longrightarrow> zw_inode w' = zw_inode w)"
  using assms
  by (auto simp: write_all_def wf_ok_refl writer_ok_def zw_store_def Let_def wf_ok_set_inode
           split: if_splits list.splits)

lemma zip_drop_wf [wf_ok_rules]: "fs_wf s \<Longrightarrow> writer_ok w s \<Longrightarrow> wf_ok s (zip_drop w s)"
  by (simp add: zip_drop_def writer_ok_def wf_ok_refl wf_ok_set_inode)

lemma zip_finish_wf [wf_ok_rules]:
  "zip_finish w s = (r, s') \<Longrightarrow> fs_wf s \<Longrightarrow> writer_ok w s \<Longrightarrow> wf_ok s s'"
  by (auto simp: zip_finish_def writer_ok_def wf_ok_refl wf_ok_set_inode split: if_splits)

lemma fs_rename_wf [wf_ok_rules]: "fs_rename a b s = (r, s') \<Longrightarrow> fs_wf s \<Longrightarrow> wf_ok s s'"
  by (auto simp: fs_rename_def wf_ok_def fs_wf_def split: if_splits option.splits)

lemma fs_remove_wf [wf_ok_rules]: "fs_remove p s = (r, s') \<Longrightarrow> fs_wf s \<Longrightarrow> wf_ok s s'"
  by (auto simp: fs_remove_def wf_ok_def fs_wf_def split: if_splits option.splits)

lemma file_save_wf [wf_ok_rules]:
  assumes "file_save p d s = (r, s')" and "fs_wf s"
  shows "wf_ok s s'"
proof (cases "file_create p s")
  case (Pair r1 s1)
  then have c: "wf_ok s s1" "\<forall>ino. r1 = Ok ino \<longrightarrow> ino < fs_next s1"
    using file_create_wf [OF _ assms(2)] by blast+
  show ?thesis
    using assms(1) Pair c wf_ok_set_inode [OF wf_ok_wf [OF c(1)]]
    by (auto simp: file_save_def intro: wf_ok_trans split: outcome.splits sum.splits if_splits)
qed

lemma with_context_state: "with_context msg m s = (r, s') \<Longrightarrow> \<exists>r0. m s = (r0, s')"
  by (auto simp: with_context_def split: prod.splits outcome.splits)

section \<open>Triples\<close>

lemma wf_stD:
  "wf_st P m Q \<Longrightarrow> m s = (r, s') \<Longrightarrow> fs_wf s \<Longrightarrow> P s \<Longrightarrow> wf_ok s s' \<and> (\<forall>a. r = Ok a \<longrightarrow> Q a s')"
  unfolding wf_st_def by blast

lemma wf_st_return [wf_ok_rules]: "(\<And>s. P s \<Longrightarrow> Q a s) \<Longrightarrow> wf_st P (st_return a) Q"
  by (simp add: wf_st_def st_return_def wf_ok_refl)

lemma wf_st_raise [wf_ok_rules]: "wf_st P (\<lambda>s. (Err e, s)) Q" "wf_st P (\<lambda>s. (Panic m, s)) Q"
  by (simp_all add: wf_st_def wf_ok_refl)

lemma wf_st_bind [wf_ok_rules]:
  assumes "wf_st P m Q" and "\<And>a. wf_st (Q a) (f a) R"
  shows "wf_st P (st_bind m f) R"
  unfolding wf_st_def
proof (intro allI impI)
  fix s r s'
  assume run: "st_bind m f s = (r, s')" and wf: "fs_wf s" and p: "P s"
  obtain r1 s1 where m: "m s = (r1, s1)" by fastforce
  have a: "wf_ok s s1" "\<forall>a. r1 = Ok a \<longrightarrow> Q a s1" using wf_stD [OF assms(1) m wf p] by blast+
  show "wf_ok s s' \<and> (\<forall>a. r = Ok a \<longrightarrow> R a s')"
  proof (cases r1)
    case (Ok a)
    then have "f a s1 = (r, s')" using run m by (simp add: st_bind_def)
    then show ?thesis
      using wf_stD [OF assms(2) _ wf_ok_wf [OF a(1)]] a Ok by (blast intro: wf_ok_trans)
  qed (use run m a in \<open>auto simp: st_bind_def\<close>)
qed

lemma with_context_run:
  "with_context msg m s = (r, s') \<Longrightarrow> \<exists>r0. m s = (r0, s') \<and> (\<forall>a. r = Ok a \<longrightarrow> r0 = Ok a)"
  by (auto simp: with_context_def split: prod.splits outcome.splits)

lemma wf_st_with_context [wf_ok_rules]:
  assumes "wf_st P m Q"
  shows "wf_st P (with_context msg m) Q"
  unfolding wf_st_def
proof (intro allI impI)
  fix s r s'
  assume a: "with_context msg m s = (r, s')" "fs_wf s" "P s"
  obtain r0 where "m s = (r0, s')" "\<forall>a. r = Ok a \<longrightarrow> r0 = Ok a" using with_context_run [OF a(1)] by blast
  then show "wf_ok s s' \<and> (\<forall>a. r = Ok a \<longrightarrow> Q a s')" using wf_stD [OF assms _ a(2,3)] by blast
qed

lemma wf_st_weaken:
  "wf_st P m Q \<Longrightarrow> (\<And>s. P' s \<Longrightarrow> P s) \<Longrightarrow> (\<And>a s. Q a s \<Longrightarrow> Q' a s) \<Longrightarrow> wf_st P' m Q'"
  unfolding wf_st_def by blast

lemma wf_st_start_file [wf_ok_rules]: "wf_st (writer_ok w) (start_file n m w) writer_ok"
  unfolding wf_st_def
proof (intro allI impI)
  fix s r s'
  assume a: "start_file n m w s = (r, s')" "fs_wf s" "writer_ok w s"
  show "wf_ok s s' \<and> (\<forall>w'. r = Ok w' \<longrightarrow> writer_ok w' s')"
  proof -
    have c: "wf_ok s s'" "\<forall>w'. r = Ok w' \<longrightarrow> zw_inode w' = zw_inode w" using start_file_wf [OF a] by blast+
    have n: "fs_next s \<le> fs_next s'" using c(1) by (simp add: wf_ok_def)
    show ?thesis
    proof (intro conjI allI impI)
      show "wf_ok s s'" by (rule c(1))
      fix w' assume "r = Ok w'"
      then have "zw_inode w' = zw_inode w" using c(2) by blast
      then show "writer_ok w' s'" using n a(3) unfolding writer_ok_def by linarith
    qed
  qed
qed

lemma wf_st_write_all [wf_ok_rules]: "wf_st (writer_ok w) (write_all d w) writer_ok"
  unfolding wf_st_def
proof (intro allI impI)
  fix s r s'
  assume a: "write_all d w s = (r, s')" "fs_wf s" "writer_ok w s"
  show "wf_ok s s' \<and> (\<forall>w'. r = Ok w' \<longrightarrow> writer_ok w' s')"
  proof -
    have c: "wf_ok s s'" "\<forall>w'. r = Ok w' \<longrightarrow> zw_inode w' = zw_inode w" using write_all_wf [OF a] by blast+
    have n: "fs_next s \<le> fs_next s'" using c(1) by (simp add: wf_ok_def)
    show ?thesis
    proof (intro conjI allI impI)
      show "wf_ok s s'" by (rule c(1))
      fix w' assume "r = Ok w'"
      then have "zw_inode w' = zw_inode w" using c(2) by blast
      then show "writer_ok w' s'" using n a(3) unfolding writer_ok_def by linarith
    qed
  qed
qed

lemma wf_st_guard [wf_ok_rules]:
  assumes "wf_st P m Q"
  shows "wf_st P (\<lambda>s. if c s then (Err (e s), s) else m s) Q"
  unfolding wf_st_def
proof (intro allI impI)
  fix s r s'
  assume a: "(if c s then (Err (e s), s) else m s) = (r, s')" "fs_wf s" "P s"
  show "wf_ok s s' \<and> (\<forall>a. r = Ok a \<longrightarrow> Q a s')"
  proof (cases "c s")
    case True
    then show ?thesis using a by (auto simp: wf_ok_refl)
  next
    case False
    then show ?thesis using a wf_stD [OF assms _ a(2,3)] by simp
  qed
qed

text \<open>\<open>.expect(..)\<close> on the result of a step: its errors become a panic.\<close>

lemma wf_st_expect [wf_ok_rules]:
  assumes "wf_st P m Q" and "\<And>a. wf_st (Q a) (f a) R"
  shows "wf_st P (\<lambda>s. case m s of (Ok a, s') \<Rightarrow> f a s' | (_, s') \<Rightarrow> (Panic msg, s')) R"
  unfolding wf_st_def
proof (intro allI impI)
  fix s r s'
  assume run: "(case m s of (Ok a, s') \<Rightarrow> f a s' | (_, s') \<Rightarrow> (Panic msg, s')) = (r, s')"
    and wf: "fs_wf s" and p: "P s"
  obtain r1 s1 where m: "m s = (r1, s1)" by fastforce
  have a: "wf_ok s s1" "\<forall>a. r1 = Ok a \<longrightarrow> Q a s1" using wf_stD [OF assms(1) m wf p] by blast+
  show "wf_ok s s' \<and> (\<forall>a. r = Ok a \<longrightarrow> R a s')"
  proof (cases r1)
    case (Ok a)
    then have "f a s1 = (r, s')" using run m by simp
    then show ?thesis
      using wf_stD [OF assms(2) _ wf_ok_wf [OF a(1)]] a Ok by (blast intro: wf_ok_trans)
  next
    case (Err e)
    then show ?thesis using run m a(1) by auto
  next
    case (Panic x)
    then show ?thesis using run m a(1) by auto
  qed
qed

section \<open>The loops over entries\<close>

lemma write_slices_wf [wf_ok_rules]: "wf_st (writer_ok w) (write_slices enc c sh ks w) writer_ok"
proof (induction ks arbitrary: w)
  case Nil
  show ?case by (simp add: wf_st_return)
next
  case (Cons k ks)
  show ?case
  proof (cases "encode_webp enc (band c sh (of_nat k))")
    case (Inl e)
    then show ?thesis by (simp add: Let_def wf_st_raise)
  next
    case (Inr d)
    then show ?thesis
      by (simp add: Let_def) (intro wf_st_bind [OF wf_st_start_file] wf_st_bind [OF wf_st_write_all] Cons.IH)
  qed
qed

lemma tar_copy_wf [wf_ok_rules]: "wf_st (writer_ok w) (tar_copy tp i ents w) writer_ok"
proof (induction ents arbitrary: i w)
  case Nil
  show ?case by (simp add: wf_st_return)
next
  case (Cons ent ents)
  obtain name data where e: "ent = (name, data)" by fastforce
  show ?case
    unfolding e tar_copy.simps
    by (rule wf_st_bind [OF wf_st_with_context [OF wf_st_start_file]], rule wf_st_guard,
        rule wf_st_bind [OF wf_st_with_context [OF wf_st_write_all]], rule Cons.IH)
qed

lemma rar_copy_wf [wf_ok_rules]: "wf_st (writer_ok w) (rar_copy items w) writer_ok"
proof (induction items arbitrary: w)
  case Nil
  show ?case by (simp add: wf_st_return)
next
  case (Cons item items)
  show ?case
  proof (cases item)
    case (RarEntry name data)
    show ?thesis
      unfolding RarEntry rar_copy.simps
      by (rule wf_st_bind [OF wf_st_with_context [OF wf_st_start_file]], rule wf_st_expect [OF wf_st_write_all],
          rule Cons.IH)
  next
    case RarHeaderError
    then show ?thesis by (simp add: wf_st_raise)
  next
    case (RarDataError name)
    show ?thesis
      unfolding RarDataError rar_copy.simps
      by (rule wf_st_bind [OF wf_st_with_context [OF wf_st_start_file]], rule wf_st_raise)
  qed
qed

lemma file_create_writer:
  assumes "file_create p s = (Ok ino, s1)" and "fs_wf s"
  shows "wf_ok s s1 \<and> writer_ok (ZipWriter_new ino q) s1"
  using file_create_wf [OF assms] by (simp add: writer_ok_def ZipWriter_new_def)

lemma wf_ok_drop:
  "wf_ok s s1 \<Longrightarrow> writer_ok w s1 \<Longrightarrow> wf_ok s1 s2 \<Longrightarrow> wf_ok s (zip_drop w s2)"
  by (meson wf_ok_trans wf_ok_wf writer_ok_mono zip_drop_wf)

lemma wf_st_fs_rename [wf_ok_rules]: "wf_st P (fs_rename a b) (\<lambda>_ _. True)"
  unfolding wf_st_def using fs_rename_wf by blast

section \<open>The strip pass\<close>

lemma manhwa_write_wf:
  assumes "manhwa_write resize enc c images name dir w s = (r, s')" and "fs_wf s" and "writer_ok w s"
  shows "wf_ok s s'"
proof (cases "combine_images resize images")
  case (Ok combined)
  show ?thesis
  proof (cases "height (min_image_size c) = 0")
    case True
    then show ?thesis using assms(1,2) Ok by (simp add: manhwa_write_def wf_ok_refl)
  next
    case False
    then have "st_bind (write_slices enc combined (height (min_image_size c))
                  [0..<unat (num_slices (img_height combined) (height (min_image_size c)))] w)
                 (\<lambda>_. fs_rename (temp_archive_path name dir) (final_archive_path name dir)) s = (r, s')"
      using assms(1) Ok by (simp add: manhwa_write_def Let_def)
    then have "wf_ok s s' \<and> (\<forall>a. r = Ok a \<longrightarrow> True)"
      by (rule wf_stD [OF wf_st_bind [OF write_slices_wf wf_st_fs_rename] _ assms(2,3)])
    then show ?thesis ..
  qed
next
  case (Err e)
  then show ?thesis using assms(1,2) by (simp add: manhwa_write_def wf_ok_refl)
next
  case (Panic m)
  then show ?thesis using assms(1,2) by (simp add: manhwa_write_def wf_ok_refl)
qed

lemma process_manhwa_images_wf:
  assumes "process_manhwa_images resize enc c images s = (r, s')" and "fs_wf s"
  shows "wf_ok s s'"
proof (cases "extract_file_info (archive_path c)")
  case (Ok nd)
  obtain name dir where nd: "nd = (name, dir)" by fastforce
  obtain r1 s1 where fc: "file_create (temp_archive_path name dir) s = (r1, s1)" by fastforce
  have c1: "wf_ok s s1" using file_create_wf [OF fc assms(2)] by blast
  show ?thesis
  proof (cases r1)
    case (Ok ino)
    let ?w = "ZipWriter_new ino (temp_archive_path name dir)"
    have w1: "writer_ok ?w s1" using file_create_writer [OF fc [unfolded Ok] assms(2)] by blast
    obtain r2 s2 where mw: "manhwa_write resize enc c images name dir ?w s1 = (r2, s2)" by fastforce
    have c2: "wf_ok s1 s2" using manhwa_write_wf [OF mw wf_ok_wf [OF c1] w1] .
    have "s' = zip_drop ?w s2"
      using assms(1) \<open>extract_file_info (archive_path c) = Ok nd\<close> nd fc Ok mw
      by (simp add: process_manhwa_images_def Let_def)
    then show ?thesis using wf_ok_drop [OF c1 w1 c2] by simp
  next
    case (Err e)
    then show ?thesis using assms(1) \<open>extract_file_info (archive_path c) = Ok nd\<close> nd fc c1
      by (simp add: process_manhwa_images_def Let_def)
  next
    case (Panic m)
    then show ?thesis using assms(1) \<open>extract_file_info (archive_path c) = Ok nd\<close> nd fc c1
      by (simp add: process_manhwa_images_def Let_def)
  qed
next
  case (Err e)
  then show ?thesis using assms by (simp add: process_manhwa_images_def wf_ok_refl)
next
  case (Panic m)
  then show ?thesis using assms by (simp add: process_manhwa_images_def wf_ok_refl)
qed

section \<open>The paged pass\<close>

text \<open>The shared state of the threads: its file system and the writer in the mutex.\<close>

definition paged_ok :: "paged_state \<Rightarrow> bool" where
  "paged_ok st \<longleftrightarrow> fs_wf (ps_fs st) \<and> writer_ok (ps_zip st) (ps_fs st)"

lemma process_image_wf:
  assumes "process_image c t enc i img st = (r, st')" and "paged_ok st"
  shows "paged_ok st' \<and> fs_next (ps_fs st) \<le> fs_next (ps_fs st')"
proof -
  have wf: "fs_wf (ps_fs st)" and wr: "writer_ok (ps_zip st) (ps_fs st)" using assms(2) by (simp_all add: paged_ok_def)
  show ?thesis
  proof (cases "image_meets_criteria c (img_width img) (img_height img)")
    case False
    then show ?thesis using assms by (auto simp: process_image_def tick_def paged_ok_def)
  next
    case True
    let ?img = "thumbnail t img (width (min_image_size c)) (height (min_image_size c))"
    show ?thesis
    proof (cases "encode_webp enc ?img")
      case (Inl e)
      then show ?thesis using assms True by (auto simp: process_image_def tick_def Let_def paged_ok_def)
    next
      case (Inr d)
      obtain r1 s1 where sf: "start_file (webp_name (i + 1)) Stored (ps_zip st) (ps_fs st) = (r1, s1)" by fastforce
      have a1: "wf_ok (ps_fs st) s1" "\<forall>w'. r1 = Ok w' \<longrightarrow> writer_ok w' s1"
        using wf_stD [OF wf_st_start_file sf wf wr] by blast+
      have w1: "writer_ok (ps_zip st) s1" using writer_ok_mono [OF wr a1(1)] .
      show ?thesis
      proof (cases r1)
        case (Ok w1)
        have p1: "writer_ok w1 s1" using a1(2) Ok by blast
        obtain r2 s2 where wa: "write_all d w1 s1 = (r2, s2)" by fastforce
        have a2: "wf_ok s1 s2" "\<forall>w'. r2 = Ok w' \<longrightarrow> writer_ok w' s2"
          using wf_stD [OF wf_st_write_all wa wf_ok_wf [OF a1(1)] p1] by blast+
        have w2: "writer_ok w1 s2" using writer_ok_mono [OF p1 a2(1)] .
        have n: "fs_next (ps_fs st) \<le> fs_next s2" using a1(1) a2(1) wf_ok_trans by (simp add: wf_ok_def)
        show ?thesis
        proof (cases r2)
          case (Ok w2)
          then show ?thesis using assms(1) True Inr sf \<open>r1 = Ok w1\<close> wa a2 n
            by (auto simp: process_image_def tick_def Let_def paged_ok_def wf_ok_def)
        next
          case (Err e)
          then show ?thesis using assms(1) True Inr sf \<open>r1 = Ok w1\<close> wa a2(1) w2 n
            by (auto simp: process_image_def Let_def paged_ok_def wf_ok_def)
        next
          case (Panic m)
          then show ?thesis using assms(1) True Inr sf \<open>r1 = Ok w1\<close> wa a2(1) w2 n
            by (auto simp: process_image_def Let_def paged_ok_def wf_ok_def)
        qed
      next
        case (Err e)
        then show ?thesis using assms(1) True Inr sf a1(1) w1
          by (auto simp: process_image_def Let_def paged_ok_def wf_ok_def)
      next
        case (Panic m)
        then show ?thesis using assms(1) True Inr sf a1(1) w1
          by (auto simp: process_image_def Let_def paged_ok_def wf_ok_def)
      qed
    qed
  qed
qed

lemma worker_seq_wf:
  assumes "paged_ok st"
  shows "paged_ok (worker_seq c t enc images i st) \<and> fs_next (ps_fs st) \<le> fs_next (ps_fs (worker_seq c t enc images i st))"
proof (cases "ps_poisoned st")
  case True
  then show ?thesis using assms by (simp add: worker_seq_def lock_failed_def finish_worker_def paged_ok_def)
next
  case False
  obtain r st' where pi: "process_image c t enc i (images ! i) (acquire i st) = (r, st')" by fastforce
  have "paged_ok (acquire i st)" using assms by (simp add: acquire_def paged_ok_def)
  from process_image_wf [OF pi this] show ?thesis
    using False pi by (simp add: worker_seq_def release_def finish_worker_def acquire_def paged_ok_def)
qed

lemma run_seq_wf:
  "paged_ok st \<Longrightarrow> paged_ok (run_seq c t enc images order st) \<and> fs_next (ps_fs st) \<le> fs_next (ps_fs (run_seq c t enc images order st))"
proof (induction order arbitrary: st)
  case Nil
  then show ?case by (simp add: run_seq_def)
next
  case (Cons i order)
  have "paged_ok (worker_seq c t enc images i st)" "fs_next (ps_fs st) \<le> fs_next (ps_fs (worker_seq c t enc images i st))"
    using worker_seq_wf [OF Cons.prems] by blast+
  then show ?case using Cons.IH [of "worker_seq c t enc images i st"] by (simp add: run_seq_def)
qed

lemma process_images_threaded_wf:
  "process_images_threaded c t enc images order st = (r, st') \<Longrightarrow> paged_ok st
   \<Longrightarrow> paged_ok st' \<and> fs_next (ps_fs st) \<le> fs_next (ps_fs st')"
  using run_seq_wf [of st c t enc images order]
  by (auto simp: process_images_threaded_def Let_def split: if_splits)

lemma process_non_manhwa_images_wf:
  assumes "process_non_manhwa_images c t enc images order s = (r, s')" and "fs_wf s"
  shows "wf_ok s s'"
proof (cases "extract_file_info (archive_path c)")
  case (Ok nd)
  obtain name dir where nd: "nd = (name, dir)" by fastforce
  obtain r1 s1 where fc: "file_create (temp_archive_path name dir) s = (r1, s1)" by fastforce
  have c1: "wf_ok s s1" using file_create_wf [OF fc assms(2)] by blast
  show ?thesis
  proof (cases r1)
    case (Ok ino)
    let ?w = "ZipWriter_new ino (temp_archive_path name dir)"
    have w1: "writer_ok ?w s1" using file_create_writer [OF fc [unfolded Ok] assms(2)] by blast
    obtain r2 st where pt: "process_images_threaded c t enc images order (init_state s1 ?w) = (r2, st)" by fastforce
    have "paged_ok (init_state s1 ?w)" using wf_ok_wf [OF c1] w1 by (simp add: paged_ok_def)
    from process_images_threaded_wf [OF pt this]
    have p: "wf_ok s1 (ps_fs st)" "writer_ok (ps_zip st) (ps_fs st)" by (simp_all add: paged_ok_def wf_ok_def)
    have run: "process_non_manhwa_images c t enc images order s
               = (case r2 of
                    Ok _ \<Rightarrow> (let (r2, s2) = fs_rename (temp_archive_path name dir) (final_archive_path name dir) (ps_fs st)
                            in (r2, zip_drop (ps_zip st) s2))
                  | Err e \<Rightarrow> (Err e, zip_drop (ps_zip st) (ps_fs st))
                  | Panic m \<Rightarrow> (Panic m, zip_drop (ps_zip st) (ps_fs st)))"
      using \<open>extract_file_info (archive_path c) = Ok nd\<close> nd fc Ok pt
      by (simp add: process_non_manhwa_images_def Let_def)
    have c2: "wf_ok s (ps_fs st)" using c1 p(1) by (rule wf_ok_trans)
    show ?thesis
    proof (cases r2)
      case (Ok u)
      obtain r3 s3 where fr: "fs_rename (temp_archive_path name dir) (final_archive_path name dir) (ps_fs st) = (r3, s3)"
        by fastforce
      have "wf_ok (ps_fs st) s3" using fs_rename_wf [OF fr wf_ok_wf [OF c2]] .
      then have "wf_ok s (zip_drop (ps_zip st) s3)" by (rule wf_ok_drop [OF c2 p(2)])
      then show ?thesis using assms(1) run Ok fr by simp
    next
      case (Err e)
      then show ?thesis using assms(1) run wf_ok_drop [OF c2 p(2) wf_ok_refl [OF wf_ok_wf [OF c2]]] by simp
    next
      case (Panic m)
      then show ?thesis using assms(1) run wf_ok_drop [OF c2 p(2) wf_ok_refl [OF wf_ok_wf [OF c2]]] by simp
    qed
  next
    case (Err e)
    then show ?thesis using assms(1) \<open>extract_file_info (archive_path c) = Ok nd\<close> nd fc c1
      by (simp add: process_non_manhwa_images_def Let_def)
  next
    case (Panic m)
    then show ?thesis using assms(1) \<open>extract_file_info (archive_path c) = Ok nd\<close> nd fc c1
      by (simp add: process_non_manhwa_images_def Let_def)
  qed
next
  case (Err e)
  then show ?thesis using assms by (simp add: process_non_manhwa_images_def wf_ok_refl)
next
  case (Panic m)
  then show ?thesis using assms by (simp add: process_non_manhwa_images_def wf_ok_refl)
qed

section \<open>The cleaning pass\<close>

lemma write_archive_wf:
  "write_archive resize t enc order c images s = (r, s') \<Longrightarrow> fs_wf s \<Longrightarrow> wf_ok s s'"
  by (cases "archive_type c")
     (simp_all add: write_archive_def process_manhwa_images_wf process_non_manhwa_images_wf)

lemma clean_archive_file_wf:
  assumes "clean_archive_file dec resize t enc order c m s = (r, s')" and "fs_wf s"
  shows "wf_ok s s'"
proof -
  obtain r1 s1 where rd: "read_images_from_archive dec c s = (r1, s1)" by fastforce
  have s1: "s1 = s" using read_images_state [of dec c s] rd by simp
  show ?thesis
  proof (cases r1)
    case (Ok images)
    obtain rew c' where sw: "should_write_archive c images m = (rew, c')" by fastforce
    obtain r2 s2 where wa: "write_archive resize t enc order c' images s = (r2, s2)" by fastforce
    have "wf_ok s s2" using write_archive_wf [OF wa assms(2)] .
    then show ?thesis using assms rd s1 Ok sw wa
      by (cases rew; cases r2) (simp_all add: clean_archive_file_def wf_ok_refl)
  next
    case (Err e)
    then show ?thesis using assms rd s1 by (simp add: clean_archive_file_def wf_ok_refl)
  next
    case (Panic x)
    then show ?thesis using assms rd s1 by (simp add: clean_archive_file_def wf_ok_refl)
  qed
qed

section \<open>The file handler\<close>

lemma with_context_wf:
  "with_context msg m s = (r, s') \<Longrightarrow> (\<And>r0. m s = (r0, s') \<Longrightarrow> wf_ok s s') \<Longrightarrow> wf_ok s s'"
  using with_context_run by blast

lemma with_context_file_open: "with_context msg (file_open p) s = (r, s') \<Longrightarrow> s' = s"
  using with_context_run file_open_state by blast

lemma with_context_file_create:
  assumes "with_context msg (file_create p) s = (r, s1)" and "fs_wf s"
  shows "wf_ok s s1 \<and> (\<forall>zf. r = Ok zf \<longrightarrow> writer_ok (ZipWriter_new zf q) s1)"
proof -
  obtain r0 where c: "file_create p s = (r0, s1)" "\<forall>a. r = Ok a \<longrightarrow> r0 = Ok a"
    using with_context_run [OF assms(1)] by blast
  show ?thesis using file_create_wf [OF c(1) assms(2)] c(2) by (simp add: writer_ok_def ZipWriter_new_def)
qed

lemma fh_clean_archive_file_wf:
  "fh_clean_archive_file env fh s = (r, s') \<Longrightarrow> fs_wf s \<Longrightarrow> wf_ok s s'"
  using clean_archive_file_wf
  by (auto simp: fh_clean_archive_file_def split: prod.splits outcome.splits)

lemma handle_zip_file_wf: "handle_zip_file env fh s = (r, s') \<Longrightarrow> fs_wf s \<Longrightarrow> wf_ok s s'"
  using fh_clean_archive_file_wf
  by (auto simp: handle_zip_file_def split: prod.splits outcome.splits)

text \<open>The end of both conversions: copy the entries, then finish, or drop on an error.\<close>

lemma copy_then_finish_wf:
  assumes "wf_st (writer_ok w) copy writer_ok" and "fs_wf s1" and "writer_ok w s1" and "wf_ok s s1"
    and "(case copy s1 of
            (Ok w', s2) \<Rightarrow> with_context msg (zip_finish w') s2
          | (Err e, s2) \<Rightarrow> (Err e, zip_drop w s2)
          | (Panic m, s2) \<Rightarrow> (Panic m, zip_drop w s2)) = (r, s')"
  shows "wf_ok s s'"
proof -
  obtain r2 s2 where cp: "copy s1 = (r2, s2)" by fastforce
  have a: "wf_ok s1 s2" "\<forall>w'. r2 = Ok w' \<longrightarrow> writer_ok w' s2" using wf_stD [OF assms(1) cp assms(2,3)] by blast+
  show ?thesis
  proof (cases r2)
    case (Ok w')
    have "with_context msg (zip_finish w') s2 = (r, s')" using assms(5) cp Ok by simp
    then have "wf_ok s2 s'"
      by (rule with_context_wf) (use zip_finish_wf wf_ok_wf [OF a(1)] a(2) Ok in blast)
    then show ?thesis using assms(4) a(1) by (blast intro: wf_ok_trans)
  next
    case (Err e)
    then show ?thesis using assms(5) cp wf_ok_drop [OF assms(4,3) a(1)] by simp
  next
    case (Panic m)
    then show ?thesis using assms(5) cp wf_ok_drop [OF assms(4,3) a(1)] by simp
  qed
qed

lemma tar_to_zip_wf:
  assumes "tar_to_zip env fh zip_path s = (r, s')" and "fs_wf s"
  shows "wf_ok s s'"
proof -
  obtain r0 s0 where op: "with_context ''Failed to open tar file'' (file_open (fh_file_path fh)) s = (r0, s0)"
    by fastforce
  have s0: "s0 = s" using with_context_file_open [OF op] .
  obtain r1 s1 where cr: "with_context ''Failed to create zip file'' (file_create zip_path) s = (r1, s1)"
    by fastforce
  have c1: "wf_ok s s1" "\<forall>zf. r1 = Ok zf \<longrightarrow> writer_ok (ZipWriter_new zf zip_path) s1"
    using with_context_file_create [OF cr assms(2)] by blast+
  have wf1: "fs_wf s1" using c1(1) by (rule wf_ok_wf)
  show ?thesis
  proof (cases r0)
    case (Ok tf)
    show ?thesis
    proof (cases r1)
      case (Ok zf)
      let ?w = "ZipWriter_new zf zip_path"
      have w1: "writer_ok ?w s1" using c1(2) Ok by blast
      show ?thesis
      proof (cases "case fs_inode s1 tf of None \<Rightarrow> None | Some f \<Rightarrow> env_tar env f")
        case None
        then have "s' = zip_drop ?w s1"
          using assms(1) op s0 cr \<open>r0 = Ok tf\<close> Ok by (auto simp: tar_to_zip_def Let_def split: option.splits)
        then show ?thesis using wf_ok_drop [OF c1(1) w1 wf_ok_refl [OF wf1]] by simp
      next
        case (Some ents)
        then have "(case tar_copy (fh_file_path fh) 0 ents ?w s1 of
                      (Ok w', s2) \<Rightarrow> with_context ''Failed to finish zip archive'' (zip_finish w') s2
                    | (Err e, s2) \<Rightarrow> (Err e, zip_drop ?w s2)
                    | (Panic m, s2) \<Rightarrow> (Panic m, zip_drop ?w s2)) = (r, s')"
          using assms(1) op s0 cr \<open>r0 = Ok tf\<close> Ok by (auto simp: tar_to_zip_def Let_def split: option.splits)
        then show ?thesis by (rule copy_then_finish_wf [OF tar_copy_wf wf1 w1 c1(1)])
      qed
    next
      case (Err e)
      then show ?thesis using assms(1) op s0 cr \<open>r0 = Ok tf\<close> c1(1) by (simp add: tar_to_zip_def)
    next
      case (Panic m)
      then show ?thesis using assms(1) op s0 cr \<open>r0 = Ok tf\<close> c1(1) by (simp add: tar_to_zip_def)
    qed
  next
    case (Err e)
    then show ?thesis using assms op s0 by (simp add: tar_to_zip_def wf_ok_refl)
  next
    case (Panic m)
    then show ?thesis using assms op s0 by (simp add: tar_to_zip_def wf_ok_refl)
  qed
qed

lemma rar_to_zip_wf:
  assumes "rar_to_zip env fh zip_path s = (r, s')" and "fs_wf s"
  shows "wf_ok s s'"
proof -
  obtain r0 s0 where op: "with_context ''Failed to open RAR file'' (file_open (fh_file_path fh)) s = (r0, s0)"
    by fastforce
  have s0: "s0 = s" using with_context_file_open [OF op] .
  obtain r1 s1 where cr: "with_context ''Failed to create zip file'' (file_create zip_path) s = (r1, s1)"
    by fastforce
  have c1: "wf_ok s s1" "\<forall>zf. r1 = Ok zf \<longrightarrow> writer_ok (ZipWriter_new zf zip_path) s1"
    using with_context_file_create [OF cr assms(2)] by blast+
  have wf1: "fs_wf s1" using c1(1) by (rule wf_ok_wf)
  show ?thesis
  proof (cases r0)
    case (Ok rf)
    show ?thesis
    proof (cases "case fs_inode s rf of None \<Rightarrow> None | Some f \<Rightarrow> env_rar env f")
      case None
      then show ?thesis using assms op s0 \<open>r0 = Ok rf\<close>
        by (auto simp: rar_to_zip_def wf_ok_refl split: option.splits)
    next
      case (Some items)
      show ?thesis
      proof (cases r1)
        case (Ok zf)
        let ?w = "ZipWriter_new zf zip_path"
        have w1: "writer_ok ?w s1" using c1(2) Ok by blast
        have "(case rar_copy items ?w s1 of
                 (Ok w', s2) \<Rightarrow> with_context ''Failed to finish zip archive'' (zip_finish w') s2
               | (Err e, s2) \<Rightarrow> (Err e, zip_drop ?w s2)
               | (Panic m, s2) \<Rightarrow> (Panic m, zip_drop ?w s2)) = (r, s')"
          using assms(1) op s0 cr \<open>r0 = Ok rf\<close> Some Ok by (simp add: rar_to_zip_def Let_def)
        then show ?thesis by (rule copy_then_finish_wf [OF rar_copy_wf wf1 w1 c1(1)])
      next
        case (Err e)
        then show ?thesis using assms(1) op s0 cr \<open>r0 = Ok rf\<close> Some c1(1) by (simp add: rar_to_zip_def)
      next
        case (Panic m)
        then show ?thesis using assms(1) op s0 cr \<open>r0 = Ok rf\<close> Some c1(1) by (simp add: rar_to_zip_def)
      qed
    qed
  next
    case (Err e)
    then show ?thesis using assms op s0 by (simp add: rar_to_zip_def wf_ok_refl)
  next
    case (Panic m)
    then show ?thesis using assms op s0 by (simp add: rar_to_zip_def wf_ok_refl)
  qed
qed

lemma handle_tar_file_wf:
  assumes "handle_tar_file env fh s = (r, s')" and "fs_wf s"
  shows "wf_ok s s'"
proof -
  obtain r1 s1 where cv: "tar_to_zip env fh (zip_path_of fh) s = (r1, s1)" by fastforce
  have c1: "wf_ok s s1" using tar_to_zip_wf [OF cv assms(2)] .
  show ?thesis
  proof (cases r1)
    case (Ok u)
    then have "handle_zip_file env fh s1 = (r, s')" using assms(1) cv by (simp add: handle_tar_file_def)
    from handle_zip_file_wf [OF this wf_ok_wf [OF c1]] show ?thesis using c1 by (blast intro: wf_ok_trans)
  qed (use assms(1) cv c1 in \<open>simp_all add: handle_tar_file_def\<close>)
qed

lemma handle_rar_file_wf:
  assumes "handle_rar_file env fh s = (r, s')" and "fs_wf s"
  shows "wf_ok s s'"
proof -
  obtain r1 s1 where cv: "rar_to_zip env fh (zip_path_of fh) s = (r1, s1)" by fastforce
  have c1: "wf_ok s s1" using rar_to_zip_wf [OF cv assms(2)] .
  show ?thesis
  proof (cases r1)
    case (Ok u)
    then have "handle_zip_file env fh s1 = (r, s')" using assms(1) cv by (simp add: handle_rar_file_def)
    from handle_zip_file_wf [OF this wf_ok_wf [OF c1]] show ?thesis using c1 by (blast intro: wf_ok_trans)
  qed (use assms(1) cv c1 in \<open>simp_all add: handle_rar_file_def\<close>)
qed

lemma open_image_state: "open_image env what p s = (r, s') \<Longrightarrow> s' = s"
  using with_context_file_open
  by (auto simp: open_image_def split: prod.splits outcome.splits option.splits)

text \<open>Saving a file, then removing one, each under its context message.\<close>

lemma save_then_remove_wf:
  assumes "(case with_context m1 (file_save p d) s of
              (Ok _, s1) \<Rightarrow> with_context m2 (fs_remove q) s1
            | (Err e, s1) \<Rightarrow> (Err e, s1)
            | (Panic m, s1) \<Rightarrow> (Panic m, s1)) = (r, s')" and "fs_wf s"
  shows "wf_ok s s'"
proof -
  obtain r1 s1 where sv: "with_context m1 (file_save p d) s = (r1, s1)" by fastforce
  have c1: "wf_ok s s1" using sv by (rule with_context_wf) (use file_save_wf assms(2) in blast)
  show ?thesis
  proof (cases r1)
    case (Ok u)
    then have "with_context m2 (fs_remove q) s1 = (r, s')" using assms(1) sv by simp
    then have "wf_ok s1 s'" by (rule with_context_wf) (use fs_remove_wf wf_ok_wf [OF c1] in blast)
    then show ?thesis using c1 by (blast intro: wf_ok_trans)
  qed (use assms(1) sv c1 in simp_all)
qed

lemma handle_image_file_wf:
  assumes "handle_image_file env fh s = (r, s')" and "fs_wf s"
  shows "wf_ok s s'"
proof -
  obtain r0 s0 where oi: "open_image env ''image'' (fh_file_path fh) s = (r0, s0)" by fastforce
  have s0: "s0 = s" using open_image_state [OF oi] .
  show ?thesis
  proof (cases r0)
    case (Ok img)
    show ?thesis
    proof (cases "path_extension (fh_file_path fh) = Some ''webp''")
      case True
      then show ?thesis using assms oi s0 Ok by (simp add: handle_image_file_def wf_ok_refl)
    next
      case False
      then have "\<exists>p d. (case with_context ''Failed to save image as webp'' (file_save p d) s of
                          (Ok _, s1) \<Rightarrow> with_context ''Failed to remove old file'' (fs_remove (fh_file_path fh)) s1
                        | (Err e, s1) \<Rightarrow> (Err e, s1)
                        | (Panic m, s1) \<Rightarrow> (Panic m, s1)) = (r, s')"
        using assms(1) oi s0 Ok by (simp add: handle_image_file_def Let_def) blast
      then show ?thesis using save_then_remove_wf assms(2) by blast
    qed
  qed (use assms oi s0 in \<open>simp_all add: handle_image_file_def wf_ok_refl\<close>)
qed

lemma handle_gif_file_wf:
  assumes "handle_gif_file env fh s = (r, s')" and "fs_wf s"
  shows "wf_ok s s'"
proof -
  obtain r0 s0 where oi: "open_image env ''gif file'' (fh_file_path fh) s = (r0, s0)" by fastforce
  have s0: "s0 = s" using open_image_state [OF oi] .
  show ?thesis
  proof (cases r0)
    case (Ok g)
    show ?thesis
    proof (cases "fst IMAGE_SIZE < img_width g \<and> snd IMAGE_SIZE < img_height g")
      case True
      then have "\<exists>p d. with_context ''Failed to save gif file'' (file_save p d) s = (r, s')"
        using assms(1) oi s0 Ok by (simp add: handle_gif_file_def) blast
      then show ?thesis using with_context_wf file_save_wf assms(2) by blast
    next
      case False
      then show ?thesis using assms oi s0 Ok by (simp add: handle_gif_file_def wf_ok_refl split: if_splits)
    qed
  qed (use assms oi s0 in \<open>simp_all add: handle_gif_file_def wf_ok_refl\<close>)
qed

lemma handle_video_file_wf:
  assumes "handle_video_file env fh s = (r, s')" and "fs_wf s"
  shows "wf_ok s s'"
proof (cases "run_ffmpeg env (case fs_dir s (fh_file_path fh) of None \<Rightarrow> None | Some ino \<Rightarrow> fs_inode s ino)
                (fh_dir_path fh @ [fh_file_name fh @ ''.mp4'']) s")
  case (Inl e)
  then show ?thesis using assms by (simp add: handle_video_file_def wf_ok_refl)
next
  case (Inr out)
  obtain success stderr written where o: "out = (success, stderr, written)" by (cases out) blast
  let ?s1 = "case written of None \<Rightarrow> s
               | Some data \<Rightarrow> snd (file_save (fh_dir_path fh @ [fh_file_name fh @ ''.mp4'']) (Inr data) s)"
  have c1: "wf_ok s ?s1"
    using file_save_wf [OF surjective_pairing assms(2)] assms(2) by (simp add: wf_ok_refl split: option.split)
  have run: "(if \<not> success then (Err (OtherErr (''FFmpeg command failed: '' @ stderr)), ?s1)
              else with_context ''Failed to remove old video file'' (fs_remove (fh_file_path fh)) ?s1) = (r, s')"
    using assms(1) Inr o by (simp add: handle_video_file_def Let_def)
  show ?thesis
  proof (cases success)
    case True
    then have "with_context ''Failed to remove old video file'' (fs_remove (fh_file_path fh)) ?s1 = (r, s')"
      using run by simp
    then have "wf_ok ?s1 s'" by (rule with_context_wf) (use fs_remove_wf wf_ok_wf [OF c1] in blast)
    then show ?thesis using c1 by (blast intro: wf_ok_trans)
  next
    case False
    then show ?thesis using run c1 by simp
  qed
qed

lemma clean_wf: "clean env fh s = (r, s') \<Longrightarrow> fs_wf s \<Longrightarrow> wf_ok s s'"
  by (cases "dispatch (path_extension (fh_file_path fh))")
     (simp_all add: clean_def handle_zip_file_wf handle_rar_file_wf handle_tar_file_wf handle_image_file_wf
                    handle_gif_file_wf handle_video_file_wf handle_subtitle_file_def st_return_def wf_ok_refl)

section \<open>Properties\<close>

text \<open>
  \<open>FileHandler::clean\<close> keeps the file system well formed. From a file system
  in which every directory entry names an allocated inode and nothing at or above the
  allocation counter is in use, every run of \<open>clean\<close>, whatever the file's format, the
  libraries' answers, the thread schedule and the I/O failures, ends in such a file
  system: no conversion, cleaning pass or handler leaves a dangling name or reuses a
  fresh inode.
\<close>

theorem clean_preserves_fs_wf:
  assumes "fs_wf s"
  shows "fs_wf (snd (clean env fh s))"
  using clean_wf [OF surjective_pairing assms] by (rule wf_ok_wf)

theorem clean_preserves_fs_wf_witness:
  "fs_inode (snd (clean \<lparr>env_dec = (\<lambda>_. None), env_resize = nearest_resize, env_thumb = nearest_resize,
                          env_enc = (\<lambda>b w h. Inr b), env_order = [], env_tar = (\<lambda>_. None), env_rar = (\<lambda>_. None),
                          env_read_image = (\<lambda>_. Some (new_rgba8 2048 1024)), env_save = (\<lambda>_ _. Inr [5]),
                          env_clock = 0, env_ffmpeg = (\<lambda>_. Inl [])\<rparr>
                        \<lparr>fh_dir_path = [''d''], fh_file_path = [''d'', ''a.png''], fh_file_name = ''a''\<rparr>
                        \<lparr>fs_dir = [[''d'', ''a.png''] \<mapsto> 0], fs_inode = [0 \<mapsto> Blob [1]], fs_next = 1,
                         fs_fails = (\<lambda>_. False)\<rparr>)) 7 = None"
proof -
  let ?s = "\<lparr>fs_dir = [[''d'', ''a.png''] \<mapsto> 0], fs_inode = [0 \<mapsto> Blob [1]], fs_next = 1, fs_fails = (\<lambda>_. False)\<rparr>"
  let ?env = "\<lparr>env_dec = (\<lambda>_. None), env_resize = nearest_resize, env_thumb = nearest_resize,
              env_enc = (\<lambda>b w h. Inr b), env_order = [], env_tar = (\<lambda>_. None), env_rar = (\<lambda>_. None),
              env_read_image = (\<lambda>_. Some (new_rgba8 2048 1024)), env_save = (\<lambda>_ _. Inr [5]),
              env_clock = 0, env_ffmpeg = (\<lambda>_. Inl [])\<rparr>"
  let ?fh = "\<lparr>fh_dir_path = [''d''], fh_file_path = [''d'', ''a.png''], fh_file_name = ''a''\<rparr>"
  have h: "fs_wf ?s" by (simp add: fs_wf_def)
  have e: "path_extension [''d'', ''a.png''] = Some ''png''"
    by (simp add: path_extension_def path_file_name_def rsplit_once_def)
  have n: "fs_next (snd (clean ?env ?fh ?s)) = 2"
    using e by (simp add: clean_def dispatch_def handle_image_file_def open_image_def with_context_def
                  file_open_def file_save_def file_create_def fs_remove_def path_exists_def Let_def)
  show ?thesis using clean_preserves_fs_wf [OF h] n by (simp add: fs_wf_def)
qed

end
