(* ===== verification/Formatter.thy ===== *)
theory Formatter
  imports Prelude
begin

text \<open>
  The name sanitizer of src/src/formatter.rs: \<open>custom_slugify\<close>, \<open>sanitize_filename\<close>
  and \<open>sep_author_name\<close>. Each regular expression of the source is translated into a
  recursive function with the matching semantics of the regex crate (leftmost-first,
  \<open>.\<close> not matching a newline, \<open>$\<close> at the end of the text only). Characters are the
  Unicode scalar values below U+0100, the range of \<open>char\<close>: \<open>\s\<close> and \<open>str::trim\<close> use
  the White_Space property, which there is tab to carriage return, space, U+0085 and
  U+00A0. The clock read by \<open>Utc::now()\<close> is a parameter.
\<close>

section \<open>Character classes\<close>

text \<open>\<open>\s\<close> of the regex crate and \<open>char::is_whitespace\<close>.\<close>

definition is_ws :: "char \<Rightarrow> bool" where
  "is_ws c \<longleftrightarrow> (of_char c :: nat) \<in> {9, 10, 11, 12, 13, 32, 133, 160}"

text \<open>The class \<open>[a-zA-Z0-9]\<close>.\<close>

definition is_ascii_alnum :: "char \<Rightarrow> bool" where
  "is_ascii_alnum c \<longleftrightarrow>
     (let n = (of_char c :: nat) in (97 \<le> n \<and> n \<le> 122) \<or> (65 \<le> n \<and> n \<le> 90) \<or> (48 \<le> n \<and> n \<le> 57))"

text \<open>\<open>char::to_lowercase\<close> on the characters that reach it (ASCII letters, digits, spaces).\<close>

definition ascii_lower :: "char \<Rightarrow> char" where
  "ascii_lower c = (let n = (of_char c :: nat) in if 65 \<le> n \<and> n \<le> 90 then char_of (n + 32) else c)"

section \<open>String operations\<close>

text \<open>\<open>str::trim_matches\<close> with a character predicate: drop matches from both ends.\<close>

definition strip_ends :: "(char \<Rightarrow> bool) \<Rightarrow> string \<Rightarrow> string" where
  "strip_ends P s = rev (dropWhile P (rev (dropWhile P s)))"

text \<open>\<open>str::trim\<close> and \<open>str::trim_matches('-')\<close>.\<close>

definition trim :: "string \<Rightarrow> string" where
  "trim s = strip_ends is_ws s"

definition trim_hyphens :: "string \<Rightarrow> string" where
  "trim_hyphens s = strip_ends (\<lambda>c. c = CHR ''-'') s"

text \<open>\<open>Regex::new(r"-{2,}").replace_all(s, "-")\<close>: every run of hyphens becomes one.\<close>

fun collapse_hyphens :: "string \<Rightarrow> string" where
  "collapse_hyphens [] = []"
| "collapse_hyphens (c # d # cs) =
     (if c = CHR ''-'' \<and> d = CHR ''-'' then collapse_hyphens (d # cs) else c # collapse_hyphens (d # cs))"
| "collapse_hyphens [c] = [c]"

text \<open>\<open>Regex::new(r"\s+").replace_all(s, " ")\<close>: every run of white space becomes a space.\<close>

function squeeze_ws :: "string \<Rightarrow> string" where
  "squeeze_ws [] = []"
| "squeeze_ws (c # cs) = (if is_ws c then CHR '' '' # squeeze_ws (dropWhile is_ws cs) else c # squeeze_ws cs)"
  by pat_completeness auto
termination
  by (relation "measure length") (auto simp: le_imp_less_Suc length_dropWhile_le)

section \<open>\<open>custom_slugify\<close>\<close>

text \<open>
  Remove what is not \<open>[a-zA-Z0-9\s]\<close>, lower-case, trim, turn each space into a hyphen,
  trim hyphens, collapse runs of hyphens.
\<close>

definition custom_slugify :: "string \<Rightarrow> string" where
  "custom_slugify input =
     collapse_hyphens
       (trim_hyphens
         (map (\<lambda>c. if c = CHR '' '' then CHR ''-'' else c)
           (trim (map ascii_lower (filter (\<lambda>c. is_ascii_alnum c \<or> is_ws c) input)))))"

section \<open>Bracketed groups: \<open>\[.*?\]\<close>, \<open>\(.*?\)\<close>, \<open>\{.*?\}\<close>\<close>

text \<open>
  After an opening delimiter, the lazy \<open>.*?\<close> extends to the first closing delimiter,
  provided no newline comes first: the text inside and the text after, or \<open>None\<close>.
\<close>

fun close_split :: "char \<Rightarrow> string \<Rightarrow> (string \<times> string) option" where
  "close_split c [] = None"
| "close_split c (x # xs) =
     (if x = c then Some ([], xs)
      else if x = CHR 0x0A then None
      else map_option (\<lambda>(inside, rest). (x # inside, rest)) (close_split c xs))"

text \<open>\<open>replace_all(.., "")\<close>: remove every group, scanning from the left.\<close>

function remove_groups :: "char \<Rightarrow> char \<Rightarrow> string \<Rightarrow> string" where
  "remove_groups od c [] = []"
| "remove_groups od c (x # xs) =
     (if x = od then
        (case close_split c xs of
           Some (_, rest) \<Rightarrow> remove_groups od c rest
         | None \<Rightarrow> x # remove_groups od c xs)
      else x # remove_groups od c xs)"
  by pat_completeness auto
termination
proof (relation "measure (\<lambda>(od, c, xs). length xs)")
  have shorter: "close_split c xs = Some (inside, rest) \<Longrightarrow> length rest \<le> length xs" for c xs inside rest
    by (induction c xs arbitrary: inside rule: close_split.induct) (auto split: if_splits)
  show "wf (measure (\<lambda>(od, c, xs). length xs))" by simp
  show "\<And>od c x xs x2 a b. x = od \<Longrightarrow> close_split c xs = Some x2 \<Longrightarrow> (a, b) = x2
          \<Longrightarrow> ((od, c, b), od, c, x # xs) \<in> measure (\<lambda>(od, c, xs). length xs)"
    using shorter by fastforce
qed auto

text \<open>The first group, as \<open>captures\<close> finds it: the text before, inside and after.\<close>

fun first_group :: "char \<Rightarrow> char \<Rightarrow> string \<Rightarrow> (string \<times> string \<times> string) option" where
  "first_group od c [] = None"
| "first_group od c (x # xs) =
     (case (if x = od then close_split c xs else None) of
        Some (inside, rest) \<Rightarrow> Some ([], inside, rest)
      | None \<Rightarrow> map_option (\<lambda>(pre, inside, rest). (x # pre, inside, rest)) (first_group od c xs))"

section \<open>End words and the date suffix\<close>

text \<open>
  The language of \<open>(\s*word[-]*)+\<close>. The word is a nonempty alphanumeric literal, so the
  white space before it and the hyphens after it are taken greedily.
\<close>

function word_run :: "string \<Rightarrow> string \<Rightarrow> bool" where
  "word_run w t =
     (if w = [] then False
      else let t1 = dropWhile is_ws t
           in if take (length w) t1 \<noteq> w then False
              else let t2 = dropWhile (\<lambda>c. c = CHR ''-'') (drop (length w) t1)
                   in t2 = [] \<or> word_run w t2)"
  by pat_completeness auto
termination
proof (relation "measure (\<lambda>(w, t). length t)")
  show "wf (measure (\<lambda>(w, t). length t))" by simp
next
  fix w t t1 t2
  assume w: "\<not> w = []" and t1: "t1 = dropWhile is_ws t" and tk: "\<not> take (length w) t1 \<noteq> w"
    and t2: "t2 = dropWhile (\<lambda>c. c = CHR ''-'') (drop (length w) t1)"
  have "length w \<le> length t1" using tk by (metis length_take min.absorb_iff1 nat_le_linear)
  moreover have "0 < length w" using w by simp
  ultimately have "length t1 - length w < length t1" by (intro diff_less) auto
  then have "length (drop (length w) t1) < length t1" by simp
  moreover have "length t1 \<le> length t" using t1 by (simp add: length_dropWhile_le)
  moreover have "length t2 \<le> length (drop (length w) t1)" unfolding t2 by (rule length_dropWhile_le)
  ultimately show "((w, t2), w, t) \<in> measure (\<lambda>(w, t). length t)" by simp
qed

declare word_run.simps [simp del]

text \<open>
  \<open>Regex::new(format!(r"(\s*{}[-]*)+$", word)).replace_all(s, "")\<close>: the leftmost
  position from which the rest of the text is a run of the word is cut off.
\<close>

definition strip_end_word :: "string \<Rightarrow> string \<Rightarrow> string" where
  "strip_end_word w s =
     (case find (\<lambda>i. word_run w (drop i s)) [0..<length s] of
        None \<Rightarrow> s
      | Some i \<Rightarrow> take i s)"

definition remove_list :: "string list" where
  "remove_list = [''chapter'', ''chapters'', ''english'', ''digital'', ''fakku'', ''comic'', ''comics'',
                  ''decensored'', ''x3200'']"

text \<open>\<open>Regex::new(r"\d{6}-\d{6}$").replace(s, "")\<close>.\<close>

definition date_suffix :: "string \<Rightarrow> bool" where
  "date_suffix t \<longleftrightarrow>
     length t = 13 \<and> list_all dec_digit (take 6 t) \<and> t ! 6 = CHR ''-'' \<and> list_all dec_digit (drop 7 t)"

definition strip_datetime :: "string \<Rightarrow> string" where
  "strip_datetime s =
     (if 13 \<le> length s \<and> date_suffix (drop (length s - 13) s) then take (length s - 13) s else s)"

section \<open>The clock\<close>

text \<open>\<open>Utc::now()\<close>, and its rendering by \<open>format("%y%m%d-%H%M%S")\<close>.\<close>

record timestamp =
  ts_year :: nat
  ts_month :: nat
  ts_day :: nat
  ts_hour :: nat
  ts_minute :: nat
  ts_second :: nat

definition valid_timestamp :: "timestamp \<Rightarrow> bool" where
  "valid_timestamp t \<longleftrightarrow>
     1 \<le> ts_month t \<and> ts_month t \<le> 12 \<and> 1 \<le> ts_day t \<and> ts_day t \<le> 31 \<and> ts_hour t < 24
     \<and> ts_minute t < 60 \<and> ts_second t < 61"

definition pad2 :: "nat \<Rightarrow> string" where
  "pad2 n = (if n < 10 then ''0'' @ string_of_nat n else string_of_nat n)"

definition format_timestamp :: "timestamp \<Rightarrow> string" where
  "format_timestamp t =
     pad2 (ts_year t mod 100) @ pad2 (ts_month t) @ pad2 (ts_day t) @ ''-''
     @ pad2 (ts_hour t) @ pad2 (ts_minute t) @ pad2 (ts_second t)"

section \<open>\<open>sanitize_filename\<close>\<close>

text \<open>
  Trim; remove the bracketed, parenthesized and braced groups; slugify; name an empty
  result \<open>unknown <timestamp>\<close>; cut each end word in turn; cut a date suffix; squeeze
  white space and trim. The \<open>sleep\<close> has no effect on the value.
\<close>

text \<open>The trimmed name without its \<open>[...]\<close>, \<open>(...)\<close> and \<open>{...}\<close> groups.\<close>

definition strip_groups :: "string \<Rightarrow> string" where
  "strip_groups name =
     remove_groups CHR ''{'' CHR ''}'' (remove_groups CHR ''('' CHR '')'' (remove_groups CHR ''['' CHR '']'' (trim name)))"

definition sanitize_filename :: "timestamp \<Rightarrow> string \<Rightarrow> string" where
  "sanitize_filename now name =
     (let cleaned = custom_slugify (strip_groups name);
          cleaned1 = (if cleaned = [] then ''unknown '' @ format_timestamp now else cleaned);
          cleaned2 = fold strip_end_word remove_list cleaned1;
          cleaned3 = strip_datetime cleaned2
      in trim (squeeze_ws cleaned3))"

section \<open>\<open>sep_author_name\<close>\<close>

text \<open>
  The author is the text of the first bracketed group, or of the first parenthesized
  group inside it; the item is the name without that bracketed group. The item is
  sanitized first, at time \<open>now1\<close>, the author after, at \<open>now2\<close>.
\<close>

definition sep_author_name :: "timestamp \<Rightarrow> timestamp \<Rightarrow> string \<Rightarrow> string option \<times> string" where
  "sep_author_name now1 now2 name =
     (let author = (case first_group CHR ''['' CHR '']'' name of
                      None \<Rightarrow> None
                    | Some (_, author_text, _) \<Rightarrow>
                        Some (case first_group CHR ''('' CHR '')'' author_text of
                                None \<Rightarrow> author_text
                              | Some (_, inner, _) \<Rightarrow> inner));
          item_name = trim (case first_group CHR ''['' CHR '']'' name of
                              None \<Rightarrow> name
                            | Some (pre, _, rest) \<Rightarrow> pre @ rest);
          cleaned_item_name = sanitize_filename now1 item_name;
          cleaned_author = map_option (sanitize_filename now2) author
      in (cleaned_author, cleaned_item_name))"

section \<open>Specification\<close>

text \<open>The characters of a slug: \<open>[a-z0-9]\<close>, the hyphen and the space.\<close>

definition lower_alnum :: "char \<Rightarrow> bool" where
  "lower_alnum c \<longleftrightarrow> (let n = (of_char c :: nat) in (97 \<le> n \<and> n \<le> 122) \<or> (48 \<le> n \<and> n \<le> 57))"

definition slug_char :: "char \<Rightarrow> bool" where
  "slug_char c \<longleftrightarrow> lower_alnum c \<or> c = CHR ''-'' \<or> c = CHR '' ''"

section \<open>Lemmas\<close>

subsection \<open>Characters\<close>

lemma ascii_lower_alnum: "is_ascii_alnum c \<Longrightarrow> lower_alnum (ascii_lower c)"
  by (auto simp: is_ascii_alnum_def lower_alnum_def ascii_lower_def Let_def)

lemma ascii_lower_ws [simp]: "is_ws c \<Longrightarrow> ascii_lower c = c"
  by (auto simp: is_ws_def ascii_lower_def)

lemma ascii_lower_lower [simp]: "lower_alnum c \<Longrightarrow> ascii_lower c = c"
  by (auto simp: lower_alnum_def ascii_lower_def Let_def)

lemma lower_alnum_not_ws: "lower_alnum c \<Longrightarrow> \<not> is_ws c"
  by (auto simp: lower_alnum_def is_ws_def Let_def)

lemma lower_alnum_keep: "lower_alnum c \<Longrightarrow> is_ascii_alnum c"
  by (auto simp: lower_alnum_def is_ascii_alnum_def Let_def)

lemma hyphen_class [simp]: "\<not> is_ws CHR ''-''" "\<not> is_ascii_alnum CHR ''-''" "\<not> lower_alnum CHR ''-''"
  by (simp_all add: is_ws_def is_ascii_alnum_def lower_alnum_def)

lemma space_class [simp]: "is_ws CHR '' ''" "\<not> lower_alnum CHR '' ''"
  by (simp_all add: is_ws_def lower_alnum_def)

lemma dec_digit_lower_alnum: "dec_digit c \<Longrightarrow> lower_alnum c"
  by (simp add: dec_digit_def lower_alnum_def)

subsection \<open>Stripping both ends\<close>

lemma strip_ends_subset: "set (strip_ends P s) \<subseteq> set s"
  by (auto simp: strip_ends_def dest!: set_dropWhileD)

lemma rev_dropWhile_prefix: "\<exists>zs. xs = rev (dropWhile P (rev xs)) @ zs"
proof -
  have "rev xs = takeWhile P (rev xs) @ dropWhile P (rev xs)" by simp
  then have "xs = rev (dropWhile P (rev xs)) @ rev (takeWhile P (rev xs))"
    by (metis rev_append rev_rev_ident)
  then show ?thesis by blast
qed

lemma strip_ends_ends:
  assumes "strip_ends P s \<noteq> []"
  shows "\<not> P (hd (strip_ends P s)) \<and> \<not> P (last (strip_ends P s))"
proof -
  let ?a = "dropWhile P s"
  have b: "strip_ends P s = rev (dropWhile P (rev ?a))" by (simp add: strip_ends_def)
  have nb: "dropWhile P (rev ?a) \<noteq> []" using assms b by auto
  have "\<not> P (last (strip_ends P s))" using hd_dropWhile [OF nb] by (simp add: b last_rev)
  moreover obtain zs where a: "?a = strip_ends P s @ zs" using rev_dropWhile_prefix b by metis
  have "?a \<noteq> []" using a assms by simp
  then have "\<not> P (hd ?a)" by (rule hd_dropWhile)
  then have "\<not> P (hd (strip_ends P s))" using a assms by simp
  ultimately show ?thesis by blast
qed

lemma strip_ends_id:
  assumes "xs = [] \<or> (\<not> P (hd xs) \<and> \<not> P (last xs))"
  shows "strip_ends P xs = xs"
proof (cases "xs = []")
  case False
  then have "dropWhile P xs = xs" "dropWhile P (rev xs) = rev xs"
    using assms by (simp_all add: dropWhile_eq_self_iff hd_rev)
  then show ?thesis by (simp add: strip_ends_def)
qed (simp add: strip_ends_def)

lemma strip_ends_idem: "strip_ends P (strip_ends P s) = strip_ends P s"
  using strip_ends_ends [of P s] by (cases "strip_ends P s = []") (simp_all add: strip_ends_id)

lemma trim_idem: "trim (trim s) = trim s"
  by (simp add: trim_def strip_ends_idem)

subsection \<open>Hyphen runs and white-space runs\<close>

lemma collapse_hyphens_subset: "set (collapse_hyphens xs) \<subseteq> set xs"
  by (induction xs rule: collapse_hyphens.induct) auto

lemma collapse_hyphens_id: "CHR ''-'' \<notin> set xs \<Longrightarrow> collapse_hyphens xs = xs"
  by (induction xs rule: collapse_hyphens.induct) auto

lemma collapse_hyphens_ends:
  "xs \<noteq> [] \<Longrightarrow> collapse_hyphens xs \<noteq> [] \<and> hd (collapse_hyphens xs) = hd xs \<and> last (collapse_hyphens xs) = last xs"
  by (induction xs rule: collapse_hyphens.induct) auto

lemma collapse_hyphens_Nil [simp]: "collapse_hyphens xs = [] \<longleftrightarrow> xs = []"
  using collapse_hyphens_ends by (cases xs) auto

lemma squeeze_ws_subset: "set (squeeze_ws s) \<subseteq> insert CHR '' '' {c \<in> set s. \<not> is_ws c}"
  by (induction s rule: squeeze_ws.induct) (auto dest: set_dropWhileD)

lemma filter_hd: "xs \<noteq> [] \<Longrightarrow> P (hd xs) \<Longrightarrow> filter P xs \<noteq> [] \<and> hd (filter P xs) = hd xs"
  by (cases xs) auto

lemma filter_last: "xs \<noteq> [] \<Longrightarrow> P (last xs) \<Longrightarrow> filter P xs \<noteq> [] \<and> last (filter P xs) = last xs"
  by (induction xs rule: rev_induct) auto

subsection \<open>Slugs\<close>

text \<open>A slug holds lower-case letters, digits, hyphens and white space other than the space.\<close>

lemma custom_slugify_chars:
  assumes "c \<in> set (custom_slugify x)"
  shows "lower_alnum c \<or> c = CHR ''-'' \<or> (is_ws c \<and> c \<noteq> CHR '' '')"
proof -
  let ?l = "map ascii_lower (filter (\<lambda>c. is_ascii_alnum c \<or> is_ws c) x)"
  let ?m = "map (\<lambda>c. if c = CHR '' '' then CHR ''-'' else c) (trim ?l)"
  have l: "lower_alnum d \<or> is_ws d" if "d \<in> set ?l" for d
    using that ascii_lower_alnum by auto
  have sub: "set (trim ?l) \<subseteq> set ?l" unfolding trim_def by (rule strip_ends_subset)
  have "lower_alnum d \<or> d = CHR ''-'' \<or> (is_ws d \<and> d \<noteq> CHR '' '')" if dm: "d \<in> set ?m" for d
  proof -
    obtain e where e: "e \<in> set (trim ?l)" "d = (if e = CHR '' '' then CHR ''-'' else e)"
      using dm unfolding set_map by blast
    have "lower_alnum e \<or> is_ws e" using l sub e(1) by blast
    then show ?thesis using e(2) by auto
  qed
  moreover have "c \<in> set ?m"
    using assms collapse_hyphens_subset strip_ends_subset by (fastforce simp: custom_slugify_def trim_hyphens_def)
  ultimately show ?thesis by blast
qed

text \<open>A nonempty slug begins and ends with a letter or digit.\<close>

lemma custom_slugify_ends:
  assumes "custom_slugify x \<noteq> []"
  shows "lower_alnum (hd (custom_slugify x)) \<and> lower_alnum (last (custom_slugify x))"
proof -
  let ?l = "map ascii_lower (filter (\<lambda>c. is_ascii_alnum c \<or> is_ws c) x)"
  let ?u = "trim ?l"
  let ?m = "map (\<lambda>c. if c = CHR '' '' then CHR ''-'' else c) ?u"
  have u: "?u \<noteq> []" using assms by (auto simp: custom_slugify_def trim_hyphens_def strip_ends_def)
  have l: "lower_alnum d \<or> is_ws d" if "d \<in> set ?l" for d
    using that ascii_lower_alnum by auto
  have e: "\<not> is_ws (hd ?u) \<and> \<not> is_ws (last ?u)" using strip_ends_ends u by (simp add: trim_def)
  have "hd ?u \<in> set ?l" "last ?u \<in> set ?l"
    using u strip_ends_subset [of is_ws ?l] by (auto simp: trim_def)
  then have a: "lower_alnum (hd ?u)" "lower_alnum (last ?u)" using e l by blast+
  then have m: "?m \<noteq> []" "hd ?m = hd ?u" "last ?m = last ?u"
    using u by (auto simp: hd_map last_map)
  have "hd ?m \<noteq> CHR ''-''" "last ?m \<noteq> CHR ''-''" using m a hyphen_class(3) by metis+
  then have "trim_hyphens ?m = ?m" unfolding trim_hyphens_def by (intro strip_ends_id) simp
  then show ?thesis using collapse_hyphens_ends [OF m(1)] m a by (simp add: custom_slugify_def)
qed

text \<open>
  With its hyphens removed, a slug is left alone by the steps of \<open>custom_slugify\<close>
  other than the character filter.
\<close>

lemma slug_dehyphen_chars:
  "filter (\<lambda>c. is_ascii_alnum c \<or> is_ws c) (custom_slugify s)
     = filter (\<lambda>c. c \<noteq> CHR ''-'') (custom_slugify s)
   \<and> map ascii_lower (filter (\<lambda>c. c \<noteq> CHR ''-'') (custom_slugify s))
     = filter (\<lambda>c. c \<noteq> CHR ''-'') (custom_slugify s)
   \<and> map (\<lambda>c. if c = CHR '' '' then CHR ''-'' else c) (filter (\<lambda>c. c \<noteq> CHR ''-'') (custom_slugify s))
     = filter (\<lambda>c. c \<noteq> CHR ''-'') (custom_slugify s)"
proof -
  let ?t = "custom_slugify s"
  let ?f = "filter (\<lambda>c. c \<noteq> CHR ''-'') ?t"
  have ch: "lower_alnum c \<or> c = CHR ''-'' \<or> (is_ws c \<and> c \<noteq> CHR '' '')" if "c \<in> set ?t" for c
    using that by (rule custom_slugify_chars)
  have k: "filter (\<lambda>c. is_ascii_alnum c \<or> is_ws c) ?t = ?f"
    using ch lower_alnum_keep by (intro filter_cong) auto
  have fch: "lower_alnum c \<or> (is_ws c \<and> c \<noteq> CHR '' '')" if "c \<in> set ?f" for c
    using that ch by auto
  have lo: "map ascii_lower ?f = ?f"
  proof (rule map_idI)
    fix c assume "c \<in> set ?f"
    then have "lower_alnum c \<or> is_ws c" using fch by blast
    then show "ascii_lower c = c" by auto
  qed
  have sp: "map (\<lambda>c. if c = CHR '' '' then CHR ''-'' else c) ?f = ?f"
  proof (rule map_idI)
    fix c assume "c \<in> set ?f"
    then have "lower_alnum c \<or> (is_ws c \<and> c \<noteq> CHR '' '')" using fch by blast
    then have "c \<noteq> CHR '' ''" by auto
    then show "(if c = CHR '' '' then CHR ''-'' else c) = c" by simp
  qed
  show ?thesis using k lo sp by blast
qed

lemma slug_dehyphen_ends:
  "trim (filter (\<lambda>c. c \<noteq> CHR ''-'') (custom_slugify s))
     = filter (\<lambda>c. c \<noteq> CHR ''-'') (custom_slugify s)
   \<and> trim_hyphens (filter (\<lambda>c. c \<noteq> CHR ''-'') (custom_slugify s))
     = filter (\<lambda>c. c \<noteq> CHR ''-'') (custom_slugify s)"
proof -
  let ?t = "custom_slugify s"
  let ?f = "filter (\<lambda>c. c \<noteq> CHR ''-'') ?t"
  have nh: "CHR ''-'' \<notin> set ?f" by simp
  have tr: "trim ?f = ?f"
  proof (cases "?t = []")
    case False
    then have e: "lower_alnum (hd ?t)" "lower_alnum (last ?t)" using custom_slugify_ends by blast+
    have h: "hd ?t \<noteq> CHR ''-''" using e(1) by (intro notI) simp
    have l: "last ?t \<noteq> CHR ''-''" using e(2) by (intro notI) simp
    have f1: "?f \<noteq> [] \<and> hd ?f = hd ?t" by (rule filter_hd [OF False]) (use h in simp)
    have f2: "last ?f = last ?t" using filter_last [OF False] l by simp
    have "\<not> is_ws (hd ?f)" "\<not> is_ws (last ?f)" using f1 f2 e lower_alnum_not_ws by simp_all
    then show ?thesis unfolding trim_def by (intro strip_ends_id) simp
  qed (simp add: trim_def strip_ends_def)
  have hy: "trim_hyphens ?f = ?f"
    unfolding trim_hyphens_def
  proof (rule strip_ends_id)
    show "?f = [] \<or> (\<not> hd ?f = CHR ''-'' \<and> \<not> last ?f = CHR ''-'')"
    proof (cases "?f = []")
      case False
      have "hd ?f \<noteq> CHR ''-''" "last ?f \<noteq> CHR ''-''"
        using nh hd_in_set [OF False] last_in_set [OF False] by (intro notI, simp only:)+
      then show ?thesis by simp
    qed simp
  qed
  show ?thesis using tr hy by blast
qed

subsection \<open>End words, the date suffix and the clock\<close>

lemma word_run_hd: "word_run w t \<Longrightarrow> w \<noteq> [] \<and> hd w \<in> set t"
proof -
  assume r: "word_run w t"
  have "w \<noteq> [] \<and> take (length w) (dropWhile is_ws t) = w"
    using r by (subst (asm) word_run.simps) (simp only: Let_def split: if_splits; simp)
  then have w: "w \<noteq> []" and tk: "take (length w) (dropWhile is_ws t) = w" by blast+
  have d: "dropWhile is_ws t \<noteq> []"
  proof
    assume e: "dropWhile is_ws t = []"
    have "take (length w) [] = w" using tk unfolding e .
    then show False using w by simp
  qed
  have "hd (dropWhile is_ws t) \<in> set t" by (rule set_dropWhileD [OF hd_in_set [OF d]])
  moreover have "hd (take (length w) (dropWhile is_ws t)) = hd (dropWhile is_ws t)"
    using w by (intro hd_take) simp
  then have "hd w = hd (dropWhile is_ws t)" unfolding tk .
  ultimately show ?thesis using w by simp
qed

lemma strip_end_word_id: "w \<noteq> [] \<Longrightarrow> hd w \<notin> set s \<Longrightarrow> strip_end_word w s = s"
proof -
  assume w: "w \<noteq> []" and h: "hd w \<notin> set s"
  have "\<not> word_run w (drop i s)" for i using word_run_hd h by (meson in_set_dropD)
  then have "find (\<lambda>i. word_run w (drop i s)) [0..<length s] = None" by (simp add: find_None_iff)
  then show ?thesis by (simp add: strip_end_word_def)
qed

lemma strip_end_word_subset: "set (strip_end_word w s) \<subseteq> set s"
  by (auto simp: strip_end_word_def split: option.split dest: in_set_takeD)

lemma fold_strip_end_word_subset: "set (fold strip_end_word ws s) \<subseteq> set s"
proof (induction ws arbitrary: s)
  case (Cons w ws)
  then show ?case using strip_end_word_subset [of w s] by auto
qed simp

lemma strip_datetime_subset: "set (strip_datetime s) \<subseteq> set s"
  by (auto simp: strip_datetime_def dest: in_set_takeD)

lemma pad2_digits: "n < 100 \<Longrightarrow> length (pad2 n) = 2 \<and> list_all dec_digit (pad2 n)"
  using string_of_nat_digits [of n]
  by (auto simp: pad2_def dec_digit_def string_of_nat.simps [of n] string_of_nat.simps [of "n div 10"]
                 digit_char_def)

lemma pad2_chars: "c \<in> set (pad2 n) \<Longrightarrow> dec_digit c"
  using string_of_nat_digits [of n] by (auto simp: pad2_def dec_digit_def list_all_iff split: if_splits)

lemma format_timestamp_chars: "c \<in> set (format_timestamp t) \<Longrightarrow> dec_digit c \<or> c = CHR ''-''"
  by (auto simp: format_timestamp_def dest: pad2_chars)

lemma format_timestamp_date_suffix:
  assumes "valid_timestamp t"
  shows "length (format_timestamp t) = 13 \<and> date_suffix (format_timestamp t)"
proof -
  have "ts_year t mod 100 < 100" "ts_month t < 100" "ts_day t < 100" "ts_hour t < 100"
       "ts_minute t < 100" "ts_second t < 100" using assms by (auto simp: valid_timestamp_def)
  then have p: "length (pad2 (ts_year t mod 100)) = 2" "list_all dec_digit (pad2 (ts_year t mod 100))"
       "length (pad2 (ts_month t)) = 2" "list_all dec_digit (pad2 (ts_month t))"
       "length (pad2 (ts_day t)) = 2" "list_all dec_digit (pad2 (ts_day t))"
       "length (pad2 (ts_hour t)) = 2" "list_all dec_digit (pad2 (ts_hour t))"
       "length (pad2 (ts_minute t)) = 2" "list_all dec_digit (pad2 (ts_minute t))"
       "length (pad2 (ts_second t)) = 2" "list_all dec_digit (pad2 (ts_second t))"
    using pad2_digits by blast+
  then show ?thesis by (simp add: format_timestamp_def date_suffix_def nth_append)
qed

text \<open>No word of the remove list begins with a letter of \<open>unknown\<close>, a digit or a hyphen.\<close>

lemma unknown_keeps_end_words:
  "fold strip_end_word remove_list (''unknown '' @ format_timestamp t) = ''unknown '' @ format_timestamp t"
proof -
  have n: "x \<notin> set (format_timestamp t)" if "\<not> dec_digit x" "x \<noteq> CHR ''-''" for x
    using that format_timestamp_chars by blast
  have "CHR ''c'' \<notin> set (format_timestamp t)" "CHR ''e'' \<notin> set (format_timestamp t)"
       "CHR ''d'' \<notin> set (format_timestamp t)" "CHR ''f'' \<notin> set (format_timestamp t)"
       "CHR ''x'' \<notin> set (format_timestamp t)"
    by (simp_all add: n dec_digit_def)
  then show ?thesis by (simp add: remove_list_def strip_end_word_id)
qed

section \<open>Properties\<close>

text \<open>
  C8 (type): every name \<open>sanitize_filename\<close> produces is a slug: it holds only lower-case
  ASCII letters, digits, hyphens and spaces, and has no white space at either end,
  whatever the input and the clock.
\<close>

theorem sanitize_filename_alphabet:
  "list_all slug_char (sanitize_filename now name)
   \<and> trim (sanitize_filename now name) = sanitize_filename now name"
proof -
  let ?c = "custom_slugify (strip_groups name)"
  let ?c1 = "if ?c = [] then ''unknown '' @ format_timestamp now else ?c"
  let ?c3 = "strip_datetime (fold strip_end_word remove_list ?c1)"
  have c1: "\<not> is_ws d \<Longrightarrow> slug_char d" if "d \<in> set ?c1" for d
  proof (cases "?c = []")
    case True
    then have "d \<in> set ''unknown '' \<or> d \<in> set (format_timestamp now)" using that by simp
    then show "\<not> is_ws d \<Longrightarrow> slug_char d"
      using format_timestamp_chars dec_digit_lower_alnum
      by (auto simp: slug_char_def lower_alnum_def)
  next
    case False
    then show "\<not> is_ws d \<Longrightarrow> slug_char d"
      using that custom_slugify_chars [of d "strip_groups name"] by (auto simp: slug_char_def)
  qed
  have "set ?c3 \<subseteq> set ?c1"
    using strip_datetime_subset fold_strip_end_word_subset by (meson order_trans)
  then have "slug_char d" if "d \<in> set (squeeze_ws ?c3)" for d
    using that squeeze_ws_subset [of ?c3] c1 by (auto simp: slug_char_def)
  then have "slug_char d" if "d \<in> set (trim (squeeze_ws ?c3))" for d
    using that strip_ends_subset [of is_ws "squeeze_ws ?c3"] by (auto simp: trim_def)
  then show ?thesis by (simp add: sanitize_filename_def Let_def list_all_iff trim_idem)
qed

text \<open>
  C12 (error): slugifying is not idempotent. A second pass over a slug removes its
  hyphens, since \<open>[^a-zA-Z0-9\s]\<close> strips them before spaces are turned into hyphens:
  a folder the formatter has renamed \<open>my-title\<close> is renamed \<open>mytitle\<close> when it runs
  again.
\<close>

theorem custom_slugify_twice:
  "custom_slugify (custom_slugify s) = filter (\<lambda>c. c \<noteq> CHR ''-'') (custom_slugify s)"
proof -
  have nh: "CHR ''-'' \<notin> set (filter (\<lambda>c. c \<noteq> CHR ''-'') (custom_slugify s))" by simp
  show ?thesis
    by (simp only: custom_slugify_def [of "custom_slugify s"] slug_dehyphen_chars
                   slug_dehyphen_ends collapse_hyphens_id [OF nh])
qed

text \<open>
  C27 (error): the time stamp meant to make an empty name unique is always removed.
  When nothing of a name survives the removal of its groups and slugifying, the name
  becomes \<open>unknown <yymmdd-HHMMSS>\<close>, and the date-suffix pattern \<open>\d{6}-\d{6}$\<close> then
  cuts the stamp off again: every such folder is named \<open>unknown\<close>, at any time.
\<close>

theorem empty_name_unknown:
  assumes "custom_slugify (strip_groups name) = []" and "valid_timestamp now"
  shows "sanitize_filename now name = ''unknown''"
proof -
  let ?u = "''unknown '' @ format_timestamp now"
  have d: "length (format_timestamp now) = 13" "date_suffix (format_timestamp now)"
    using format_timestamp_date_suffix [OF assms(2)] by blast+
  have "strip_datetime ?u = ''unknown ''"
    using d by (simp add: strip_datetime_def)
  then show ?thesis
    using assms(1) unknown_keeps_end_words [of now]
    by (simp add: sanitize_filename_def Let_def trim_def strip_ends_def is_ws_def)
qed

theorem empty_name_unknown_witness:
  "sanitize_filename \<lparr>ts_year = 2024, ts_month = 5, ts_day = 17, ts_hour = 9, ts_minute = 3, ts_second = 0\<rparr>
     ''[Some Circle] (Extra)'' = ''unknown''"
proof -
  have h1: "custom_slugify (strip_groups ''[Some Circle] (Extra)'') = []" by code_simp
  have h2: "valid_timestamp \<lparr>ts_year = 2024, ts_month = 5, ts_day = 17, ts_hour = 9, ts_minute = 3, ts_second = 0\<rparr>"
    by (simp add: valid_timestamp_def)
  show ?thesis using empty_name_unknown [OF h1 h2] .
qed

text \<open>
  \<open>sanitize_filename\<close> on the example of \<open>formatter::main\<close> and three
  plain names. The groups go, the end word \<open>chapter\<close> stays because it is not at the
  end, and the date pattern eats the last thirteen characters of \<open>20231128-123456\<close>,
  leaving \<open>20\<close>; \<open>Title Chapter\<close> keeps the hyphen before the cut word; a second run on
  \<open>my-title\<close> gives \<open>mytitle\<close>.
\<close>

theorem sanitize_filename_examples:
  "sanitize_filename now ''  [Special](example) {test} title chapter 01 20231128 123456  ''
     = ''title-chapter-01-20''
   \<and> sanitize_filename now ''Title Chapter'' = ''title-''
   \<and> sanitize_filename now ''My Title'' = ''my-title''
   \<and> sanitize_filename now ''my-title'' = ''mytitle''"
  by code_simp

end
