(* ===== verification/Dir_Walk.thy ===== *)
theory Dir_Walk
  imports Formatter
begin

text \<open>
  The directory walk of src/src/formatter.rs: \<open>clean\<close> lists a directory and hands each
  subdirectory to \<open>handle_directory\<close>, which removes it when it is empty and otherwise
  renames it to its sanitized name and cleans it in turn. The file system is a tree of
  directories whose entries are kept in \<open>read_dir\<close> order, with the \<open>std::fs\<close>
  operations the walk uses (\<open>read_dir\<close>, \<open>remove_dir\<close>, \<open>rename\<close>, \<open>Path::is_dir\<close>)
  and the errors POSIX gives them. The walk lists a directory once and visits the names
  of that listing, the behaviour of a \<open>ReadDir\<close> that does not see the entries the loop
  adds. The recursion has fuel; the walk returns whenever the fuel exceeds the height of
  the tree.
\<close>

section \<open>Directory trees\<close>

datatype node = FileN | DirN "(string \<times> node) list"

text \<open>The node at a path, the first entry of a name counting (as \<open>map_of\<close>).\<close>

fun lookup :: "node \<Rightarrow> path \<Rightarrow> node option"
  and lookup_in :: "(string \<times> node) list \<Rightarrow> string \<Rightarrow> path \<Rightarrow> node option" where
  "lookup n [] = Some n"
| "lookup FileN (x # xs) = None"
| "lookup (DirN es) (x # xs) = lookup_in es x xs"
| "lookup_in [] x xs = None"
| "lookup_in ((y, n) # es) x xs = (if y = x then lookup n xs else lookup_in es x xs)"

text \<open>Apply \<open>g\<close> to the node at a path; the tree is unchanged when there is none.\<close>

fun update_at :: "path \<Rightarrow> (node \<Rightarrow> node) \<Rightarrow> node \<Rightarrow> node"
  and update_in :: "string \<Rightarrow> path \<Rightarrow> (node \<Rightarrow> node) \<Rightarrow> (string \<times> node) list
                      \<Rightarrow> (string \<times> node) list" where
  "update_at [] g n = g n"
| "update_at (x # xs) g FileN = FileN"
| "update_at (x # xs) g (DirN es) = DirN (update_in x xs g es)"
| "update_in x xs g [] = []"
| "update_in x xs g ((y, n) # es) =
     (if y = x then (y, update_at xs g n) # es else (y, n) # update_in x xs g es)"

fun remove_entry :: "string \<Rightarrow> (string \<times> node) list \<Rightarrow> (string \<times> node) list" where
  "remove_entry x [] = []"
| "remove_entry x ((y, n) # es) = (if y = x then es else (y, n) # remove_entry x es)"

fun rename_entry :: "string \<Rightarrow> string \<Rightarrow> (string \<times> node) list \<Rightarrow> (string \<times> node) list" where
  "rename_entry x x' [] = []"
| "rename_entry x x' ((y, n) # es) =
     (if y = x then (x', n) # es else (y, n) # rename_entry x x' es)"

definition on_dir :: "((string \<times> node) list \<Rightarrow> (string \<times> node) list) \<Rightarrow> node \<Rightarrow> node" where
  "on_dir g n = (case n of DirN es \<Rightarrow> DirN (g es) | FileN \<Rightarrow> FileN)"

section \<open>Paths\<close>

text \<open>\<open>Path::file_name\<close> with \<open>unwrap_or(&OsString::new())\<close>, and \<open>Path::with_file_name\<close>.\<close>

definition file_name :: "path \<Rightarrow> string" where
  "file_name p = (if p = [] then [] else last p)"

definition with_file_name :: "path \<Rightarrow> string \<Rightarrow> path" where
  "with_file_name p x = butlast p @ [x]"

section \<open>\<open>std::fs\<close> on directories\<close>

datatype walk_error =
    NotFound path
  | NotADirectory path
  | IsADirectory path
  | DirectoryNotEmpty path
  | InvalidArgument path
  | ResourceBusy path

text \<open>\<open>Path::is_dir\<close>.\<close>

definition is_dir :: "path \<Rightarrow> node \<Rightarrow> bool" where
  "is_dir p t = (case lookup t p of Some (DirN _) \<Rightarrow> True | _ \<Rightarrow> False)"

text \<open>\<open>fs::read_dir\<close>: the names of the entries, in the directory's order.\<close>

definition read_dir :: "path \<Rightarrow> node \<Rightarrow> walk_error + string list" where
  "read_dir p t =
     (case lookup t p of
        None \<Rightarrow> Inl (NotFound p)
      | Some FileN \<Rightarrow> Inl (NotADirectory p)
      | Some (DirN es) \<Rightarrow> Inr (map fst es))"

text \<open>\<open>fs::remove_dir\<close>: only an empty directory goes; the root cannot.\<close>

definition remove_dir :: "path \<Rightarrow> node \<Rightarrow> walk_error + node" where
  "remove_dir p t =
     (if p = [] then Inl (ResourceBusy p)
      else case lookup t p of
             None \<Rightarrow> Inl (NotFound p)
           | Some FileN \<Rightarrow> Inl (NotADirectory p)
           | Some (DirN (_ # _)) \<Rightarrow> Inl (DirectoryNotEmpty p)
           | Some (DirN []) \<Rightarrow> Inr (update_at (butlast p) (on_dir (remove_entry (last p))) t))"

text \<open>
  \<open>fs::rename(from, to)\<close> for two paths in one directory, as rename(2) does it: an
  empty target name is the directory itself (\<open>EINVAL\<close>); an existing target is
  replaced when it is a file and the source is one, or an empty directory and the
  source is a directory, and is otherwise an error.
\<close>

definition rename_dir :: "path \<Rightarrow> path \<Rightarrow> node \<Rightarrow> walk_error + node" where
  "rename_dir src dst t =
     (if src = [] \<or> dst = [] \<or> butlast src \<noteq> butlast dst then Inl (InvalidArgument dst)
      else if last dst = [] then Inl (InvalidArgument dst)
      else if src = dst then
        (case lookup t src of None \<Rightarrow> Inl (NotFound src) | Some _ \<Rightarrow> Inr t)
      else case lookup t src of
        None \<Rightarrow> Inl (NotFound src)
      | Some sn \<Rightarrow>
          (let move = update_at (butlast src) (on_dir (rename_entry (last src) (last dst)))
           in case (sn, lookup t dst) of
                (_, None) \<Rightarrow> Inr (move t)
              | (DirN _, Some (DirN [])) \<Rightarrow>
                  Inr (move (update_at (butlast dst) (on_dir (remove_entry (last dst))) t))
              | (DirN _, Some (DirN _)) \<Rightarrow> Inl (DirectoryNotEmpty dst)
              | (DirN _, Some FileN) \<Rightarrow> Inl (NotADirectory dst)
              | (FileN, Some FileN) \<Rightarrow>
                  Inr (move (update_at (butlast dst) (on_dir (remove_entry (last dst))) t))
              | (FileN, Some (DirN _)) \<Rightarrow> Inl (IsADirectory dst)))"

section \<open>The walk\<close>

text \<open>The lines \<open>clean\<close> and \<open>handle_directory\<close> print, in order.\<close>

datatype event =
    Progress nat nat nat path
  | NotADir path
  | RemovedEmpty path
  | RenamedFolder string path
  | CleaningComplete

record walk_state =
  ws_root :: node
  ws_tick :: nat
  ws_log :: "event list"

definition log_event :: "event \<Rightarrow> walk_state \<Rightarrow> walk_state" where
  "log_event e s = s\<lparr>ws_log := ws_log s @ [e]\<rparr>"

text \<open>
  \<open>io::Result<()>\<close>, with the panic of a division by zero in the progress line. The
  clock is a parameter: \<open>clk k\<close> is the time \<open>Utc::now()\<close> reads the \<open>k\<close>-th time;
  \<open>sanitize_filename\<close> reads it only for a name that slugifies to nothing.
\<close>

datatype walk_result = WOk | WErr walk_error | WPanic string

definition sanitize_at :: "(nat \<Rightarrow> timestamp) \<Rightarrow> nat \<Rightarrow> string \<Rightarrow> string \<times> nat" where
  "sanitize_at clk k name =
     (sanitize_filename (clk k) name,
      if custom_slugify (strip_groups name) = [] then Suc k else k)"

function (sequential) clean_walk ::
    "(nat \<Rightarrow> timestamp) \<Rightarrow> nat \<Rightarrow> path \<Rightarrow> walk_state \<Rightarrow> (walk_result \<times> walk_state) option"
  and clean_entries ::
    "(nat \<Rightarrow> timestamp) \<Rightarrow> nat \<Rightarrow> path \<Rightarrow> nat \<Rightarrow> string list \<Rightarrow> walk_state
       \<Rightarrow> (walk_result \<times> walk_state) option"
  and handle_directory ::
    "(nat \<Rightarrow> timestamp) \<Rightarrow> nat \<Rightarrow> path \<Rightarrow> walk_state \<Rightarrow> (walk_result \<times> walk_state) option"
where
  "clean_walk clk 0 p s = None"
| "clean_walk clk (Suc f) p s =
     (case read_dir p (ws_root s) of
        Inl e \<Rightarrow> Some (WErr e, s)
      | Inr names \<Rightarrow>
          (case clean_entries clk f p 0 names s of
             Some (WOk, s') \<Rightarrow> Some (WOk, log_event CleaningComplete s')
           | r \<Rightarrow> r))"
| "clean_entries clk f p k [] s = Some (WOk, s)"
| "clean_entries clk f p k (n # ns) s =
     (case read_dir p (ws_root s) of
        Inl e \<Rightarrow> Some (WErr e, s)
      | Inr cur \<Rightarrow>
          (if cur = [] then Some (WPanic ''attempt to divide by zero'', s)
           else
             (let s1 = log_event (Progress (Suc k) (length cur) (Suc k * 100 div length cur)
                                    (p @ [n])) s
              in if is_dir (p @ [n]) (ws_root s1) then
                   (case handle_directory clk f (p @ [n]) s1 of
                      Some (WOk, s2) \<Rightarrow> clean_entries clk f p (Suc k) ns s2
                    | r \<Rightarrow> r)
                 else clean_entries clk f p (Suc k) ns (log_event (NotADir (p @ [n])) s1))))"
| "handle_directory clk f p s =
     (case read_dir p (ws_root s) of
        Inl e \<Rightarrow> Some (WErr e, s)
      | Inr [] \<Rightarrow>
          (case remove_dir p (ws_root s) of
             Inl e \<Rightarrow> Some (WErr e, s)
           | Inr t \<Rightarrow> Some (WOk, log_event (RemovedEmpty p) (s\<lparr>ws_root := t\<rparr>)))
      | Inr (_ # _) \<Rightarrow>
          (let old = file_name p;
               (new, k) = sanitize_at clk (ws_tick s) old;
               s1 = s\<lparr>ws_tick := k\<rparr>
           in if new \<noteq> old then
                (case rename_dir p (with_file_name p new) (ws_root s1) of
                   Inl e \<Rightarrow> Some (WErr e, s1)
                 | Inr t \<Rightarrow>
                     clean_walk clk f (with_file_name p new)
                       (log_event (RenamedFolder old (with_file_name p new))
                          (s1\<lparr>ws_root := t\<rparr>)))
              else clean_walk clk f p s1))"
  by pat_completeness auto
termination
  by (relation "measures
        [\<lambda>x. case x of
              Inl (_, f, _) \<Rightarrow> 3 * f
            | Inr (Inl (_, f, _)) \<Rightarrow> 3 * f + 2
            | Inr (Inr (_, f, _)) \<Rightarrow> 3 * f + 1,
         \<lambda>x. case x of Inr (Inl (_, _, _, _, ns, _)) \<Rightarrow> length ns | _ \<Rightarrow> 0]") auto

declare handle_directory.simps [simp del]

section \<open>Measures and well-formedness of trees\<close>

fun tree_height :: "node \<Rightarrow> nat"
  and tree_height_list :: "(string \<times> node) list \<Rightarrow> nat" where
  "tree_height FileN = 0"
| "tree_height (DirN es) = Suc (tree_height_list es)"
| "tree_height_list [] = 0"
| "tree_height_list ((x, n) # es) = max (tree_height n) (tree_height_list es)"

text \<open>The number of files in a tree.\<close>

fun nfiles :: "node \<Rightarrow> nat"
  and nfiles_list :: "(string \<times> node) list \<Rightarrow> nat" where
  "nfiles FileN = 1"
| "nfiles (DirN es) = nfiles_list es"
| "nfiles_list [] = 0"
| "nfiles_list ((x, n) # es) = nfiles n + nfiles_list es"

text \<open>A tree a file system can hold: the names of a directory are distinct and non-empty.\<close>

fun wf_node :: "node \<Rightarrow> bool"
  and wf_list :: "(string \<times> node) list \<Rightarrow> bool" where
  "wf_node FileN = True"
| "wf_node (DirN es) = (distinct (map fst es) \<and> wf_list es)"
| "wf_list [] = True"
| "wf_list ((x, n) # es) = (x \<noteq> [] \<and> wf_node n \<and> wf_list es)"

text \<open>The rename steps the walk takes, on the parent's entries.\<close>

definition rename_step :: "string \<Rightarrow> string \<Rightarrow> (string \<times> node) list
    \<Rightarrow> ((string \<times> node) list \<Rightarrow> (string \<times> node) list) \<Rightarrow> bool" where
  "rename_step x x' es G \<longleftrightarrow>
     (G = rename_entry x x' \<and> map_of es x' = None)
     \<or> (G = rename_entry x x' \<circ> remove_entry x' \<and> map_of es x' = Some (DirN []))"

section \<open>Lemmas on trees\<close>

lemma lookup_in_map_of: "lookup_in es x xs = (case map_of es x of None \<Rightarrow> None | Some n \<Rightarrow> lookup n xs)"
  by (induction es) auto

lemma lookup_append:
  "lookup t (q @ r) = (case lookup t q of None \<Rightarrow> None | Some n \<Rightarrow> lookup n r)"
  and "lookup_in es x (q @ r) = (case lookup_in es x q of None \<Rightarrow> None | Some n \<Rightarrow> lookup n r)"
  by (induction t q and es x q rule: lookup_lookup_in.induct) auto

lemma lookup_snoc:
  "lookup t (q @ [x]) = (case lookup t q of Some (DirN es) \<Rightarrow> map_of es x | _ \<Rightarrow> None)"
  by (simp add: lookup_append lookup_in_map_of split: option.split node.split)

lemma lookup_butlast:
  assumes "p \<noteq> []" and "lookup t p = Some n"
  obtains es where "lookup t (butlast p) = Some (DirN es)" and "map_of es (last p) = Some n"
proof -
  have "lookup t (butlast p @ [last p]) = Some n" using assms by simp
  then show ?thesis using that
    by (auto simp: lookup_snoc split: option.splits node.splits)
qed

lemma lookup_height:
  "lookup t q = Some n \<Longrightarrow> length q + tree_height n \<le> tree_height t"
  and "lookup_in es x q = Some n \<Longrightarrow> Suc (length q + tree_height n) \<le> Suc (tree_height_list es)"
  by (induction t q and es x q arbitrary: n and n rule: lookup_lookup_in.induct)
     (fastforce split: if_splits)+

lemma map_fst_update_in [simp]: "map fst (update_in x xs g es) = map fst es"
  by (induction es) auto

lemma map_fst_remove_entry: "map fst (remove_entry x es) = remove1 x (map fst es)"
  by (induction es) auto

lemma set_rename_entry: "fst ` set (rename_entry x x' es) \<subseteq> insert x' (fst ` set es)"
proof (induction es)
  case (Cons e es)
  then show ?case by (cases e) auto
qed simp

lemma distinct_rename_entry:
  "distinct (map fst es) \<Longrightarrow> x' \<notin> fst ` set es \<Longrightarrow> distinct (map fst (rename_entry x x' es))"
proof (induction es)
  case (Cons e es)
  then show ?case using set_rename_entry [of x x' es] by (cases e) auto
qed simp

lemma update_at_nfiles:
  "(\<And>n. lookup t q = Some n \<Longrightarrow> nfiles (g n) = nfiles n) \<Longrightarrow> nfiles (update_at q g t) = nfiles t"
  and "(\<And>n. lookup_in es x q = Some n \<Longrightarrow> nfiles (g n) = nfiles n) \<Longrightarrow>
       nfiles_list (update_in x q g es) = nfiles_list es"
  by (induction q g t and x q g es rule: update_at_update_in.induct) auto

lemma update_at_height:
  "(\<And>n. lookup t q = Some n \<Longrightarrow> tree_height (g n) \<le> tree_height n) \<Longrightarrow> tree_height (update_at q g t) \<le> tree_height t"
  and "(\<And>n. lookup_in es x q = Some n \<Longrightarrow> tree_height (g n) \<le> tree_height n) \<Longrightarrow>
       tree_height_list (update_in x q g es) \<le> tree_height_list es"
  by (induction q g t and x q g es rule: update_at_update_in.induct) (auto simp: le_max_iff_disj)

lemma update_at_wf:
  "(\<And>n. lookup t q = Some n \<Longrightarrow> wf_node n \<Longrightarrow> wf_node (g n)) \<Longrightarrow> wf_node t \<Longrightarrow>
   wf_node (update_at q g t)"
  and "(\<And>n. lookup_in es x q = Some n \<Longrightarrow> wf_node n \<Longrightarrow> wf_node (g n)) \<Longrightarrow> wf_list es \<Longrightarrow>
       wf_list (update_in x q g es)"
  by (induction q g t and x q g es rule: update_at_update_in.induct) auto

lemma lookup_update_at_same:
  "lookup (update_at q g t) q = map_option g (lookup t q)"
  and "lookup_in (update_in x q g es) x q = map_option g (lookup_in es x q)"
  by (induction q g t and x q g es rule: update_at_update_in.induct) auto

lemma update_at_comp: "update_at q g (update_at q h t) = update_at q (g \<circ> h) t"
  and "update_in x q g (update_in x q h es) = update_in x q (g \<circ> h) es"
  by (induction q h t and x q h es rule: update_at_update_in.induct) auto

lemma on_dir_comp: "on_dir g \<circ> on_dir h = on_dir (g \<circ> h)"
  by (rule ext) (simp add: on_dir_def split: node.split)

lemma nfiles_remove_entry:
  "nfiles_list (remove_entry x es) + (case map_of es x of Some n \<Rightarrow> nfiles n | None \<Rightarrow> 0)
     = nfiles_list es"
  by (induction es rule: remove_entry.induct) auto

lemma nfiles_rename_entry [simp]: "nfiles_list (rename_entry x x' es) = nfiles_list es"
  by (induction es rule: rename_entry.induct) auto

lemma height_remove_entry: "tree_height_list (remove_entry x es) \<le> tree_height_list es"
  by (induction es rule: remove_entry.induct) (auto simp: le_max_iff_disj)

lemma height_rename_entry [simp]: "tree_height_list (rename_entry x x' es) = tree_height_list es"
  by (induction es rule: rename_entry.induct) auto

lemma wf_remove_entry: "wf_list es \<Longrightarrow> wf_list (remove_entry x es)"
  by (induction es rule: remove_entry.induct) auto

lemma wf_rename_entry: "wf_list es \<Longrightarrow> x' \<noteq> [] \<Longrightarrow> wf_list (rename_entry x x' es)"
  by (induction es rule: rename_entry.induct) auto

lemma fresh_remove_entry:
  "distinct (map fst es) \<Longrightarrow> x \<notin> fst ` set (remove_entry x es)"
proof -
  assume d: "distinct (map fst es)"
  have "set (remove1 x (map fst es)) = set (map fst es) - {x}"
    using d by (rule set_remove1_eq)
  then show ?thesis by (simp add: map_fst_remove_entry [symmetric])
qed

lemma distinct_remove_entry:
  "distinct (map fst es) \<Longrightarrow> distinct (map fst (remove_entry x es))"
  by (simp add: map_fst_remove_entry)

section \<open>What the directory operations change\<close>

text \<open>A successful \<open>remove_dir\<close> drops an empty directory from its parent's entries.\<close>

lemma remove_dir_Inr:
  assumes "remove_dir p t = Inr t'"
  obtains q x es where "p = q @ [x]" and "lookup t q = Some (DirN es)"
    and "map_of es x = Some (DirN [])" and "t' = update_at q (on_dir (remove_entry x)) t"
proof -
  have p: "p \<noteq> []" and l: "lookup t p = Some (DirN [])"
    and t': "t' = update_at (butlast p) (on_dir (remove_entry (last p))) t"
    using assms by (auto simp: remove_dir_def split: option.splits node.splits list.splits if_splits)
  obtain es where "lookup t (butlast p) = Some (DirN es)" "map_of es (last p) = Some (DirN [])"
    using lookup_butlast [OF p l] .
  then show ?thesis using that [of "butlast p" "last p" es] p t' by simp
qed

text \<open>
  A successful \<open>rename_dir\<close> of a directory leaves the tree alone, or renames one entry
  of the parent, after dropping an empty directory of the new name.
\<close>

lemma rename_dir_Inr:
  assumes r: "rename_dir src dst t = Inr t'" and d: "is_dir src t"
  obtains (same) "t' = t"
  | (move) q x x' es G where "src = q @ [x]" and "dst = q @ [x']" and "x \<noteq> x'" and "x' \<noteq> []"
      and "lookup t q = Some (DirN es)" and "map_of es x \<noteq> None"
      and "t' = update_at q (on_dir G) t"
      and "(G = rename_entry x x' \<and> map_of es x' = None)
           \<or> (G = rename_entry x x' \<circ> remove_entry x' \<and> map_of es x' = Some (DirN []))"
proof (cases "src = dst")
  case True
  then show ?thesis using r same by (auto simp: rename_dir_def split: option.splits if_splits)
next
  case False
  have ne: "src \<noteq> []" "dst \<noteq> []" and bl: "butlast src = butlast dst" and nm: "last dst \<noteq> []"
    using r by (auto simp: rename_dir_def split: if_splits)
  define q x x' where "q = butlast src" and "x = last src" and "x' = last dst"
  have src: "src = q @ [x]" using ne(1) by (simp add: q_def x_def)
  have dst: "dst = q @ [x']" using ne(2) bl by (simp add: q_def x'_def)
  have xx: "x \<noteq> x'" using False src dst by auto
  have nm': "x' \<noteq> []" using nm by (simp add: x'_def)
  obtain sn where l: "lookup t src = Some sn"
    using r False ne bl nm by (auto simp: rename_dir_def split: option.splits)
  obtain ses where sn: "sn = DirN ses"
    using d l by (auto simp: is_dir_def split: node.splits)
  obtain es where "lookup t (butlast src) = Some (DirN es)" "map_of es (last src) = Some sn"
    using lookup_butlast [OF ne(1) l] .
  then have p: "lookup t q = Some (DirN es)" "map_of es x = Some sn"
    by (simp_all add: q_def x_def)
  have ld: "lookup t dst = map_of es x'"
    by (simp add: dst lookup_snoc p(1))
  have mv: "rename_dir src dst t = (case map_of es x' of
          None \<Rightarrow> Inr (update_at q (on_dir (rename_entry x x')) t)
        | Some (DirN []) \<Rightarrow>
            Inr (update_at q (on_dir (rename_entry x x')) (update_at q (on_dir (remove_entry x')) t))
        | Some (DirN (_ # _)) \<Rightarrow> Inl (DirectoryNotEmpty dst)
        | Some FileN \<Rightarrow> Inl (NotADirectory dst))"
    using xx nm' l sn ld unfolding src dst
    by (simp add: rename_dir_def Let_def split: option.split node.split list.split)
  consider (nodst) "map_of es x' = None" | (emptydst) "map_of es x' = Some (DirN [])"
    | (fulldst) "\<exists>e es'. map_of es x' = Some (DirN (e # es'))"
    | (filedst) "map_of es x' = Some FileN"
    by (metis list.exhaust node.exhaust option.exhaust)
  then show ?thesis
  proof cases
    case nodst
    then have "t' = update_at q (on_dir (rename_entry x x')) t" using r mv by simp
    then show ?thesis using move [OF src dst xx nm' p(1)] p(2) nodst by simp
  next
    case emptydst
    then have "t' = update_at q (on_dir (rename_entry x x' \<circ> remove_entry x')) t"
      using r mv by (simp add: update_at_comp on_dir_comp [symmetric])
    then show ?thesis using move [OF src dst xx nm' p(1)] p(2) emptydst by simp
  next
    case fulldst
    then show ?thesis using r mv by auto
  next
    case filedst
    then show ?thesis using r mv by simp
  qed
qed

lemma rename_step_nfiles: "rename_step x x' es G \<Longrightarrow> nfiles_list (G es) = nfiles_list es"
  using nfiles_remove_entry [of x' es] by (auto simp: rename_step_def)

lemma rename_step_height: "rename_step x x' es G \<Longrightarrow> tree_height_list (G es) \<le> tree_height_list es"
  using height_remove_entry [of x' es] by (auto simp: rename_step_def)

lemma rename_step_wf:
  assumes "rename_step x x' es G" and "x' \<noteq> []" and "wf_node (DirN es)"
  shows "wf_node (DirN (G es))"
  using assms fresh_remove_entry [of es x'] distinct_remove_entry [of es x']
  by (auto simp: rename_step_def map_of_eq_None_iff intro!: distinct_rename_entry wf_rename_entry
                 wf_remove_entry)

lemma rename_dir_step:
  assumes "rename_dir src dst t = Inr t'" and "is_dir src t"
  obtains (same) "t' = t"
  | (move) q x x' es G where "x' \<noteq> []" and "lookup t q = Some (DirN es)"
      and "t' = update_at q (on_dir G) t" and "rename_step x x' es G"
  using assms by (cases rule: rename_dir_Inr) (auto simp: rename_step_def)

lemma remove_dir_nfiles:
  assumes "remove_dir p t = Inr t'" shows "nfiles t' = nfiles t"
proof (rule remove_dir_Inr [OF assms])
  fix q x es
  assume "p = q @ [x]" and l: "lookup t q = Some (DirN es)" and m: "map_of es x = Some (DirN [])"
    and t': "t' = update_at q (on_dir (remove_entry x)) t"
  have "nfiles_list (remove_entry x es) = nfiles_list es" using nfiles_remove_entry [of x es] m by simp
  then show ?thesis unfolding t' by (intro update_at_nfiles(1)) (auto simp: l on_dir_def)
qed

lemma remove_dir_height:
  assumes "remove_dir p t = Inr t'" shows "tree_height t' \<le> tree_height t"
proof (rule remove_dir_Inr [OF assms])
  fix q x es
  assume "p = q @ [x]" and l: "lookup t q = Some (DirN es)"
    and t': "t' = update_at q (on_dir (remove_entry x)) t"
  show ?thesis unfolding t'
    by (intro update_at_height(1)) (simp add: l on_dir_def height_remove_entry)
qed

lemma remove_dir_wf:
  assumes "remove_dir p t = Inr t'" and w: "wf_node t" shows "wf_node t'"
proof (rule remove_dir_Inr [OF assms(1)])
  fix q x es
  assume "p = q @ [x]" and l: "lookup t q = Some (DirN es)"
    and t': "t' = update_at q (on_dir (remove_entry x)) t"
  show ?thesis unfolding t' using w
    by (intro update_at_wf(1)) (auto simp: l on_dir_def distinct_remove_entry wf_remove_entry)
qed

lemma rename_dir_nfiles:
  assumes "rename_dir p p' t = Inr t'" and "is_dir p t" shows "nfiles t' = nfiles t"
  using assms
proof (cases rule: rename_dir_step)
  case (move q x x' es G)
  show ?thesis unfolding move(3)
    by (intro update_at_nfiles(1)) (simp add: move(2) on_dir_def rename_step_nfiles [OF move(4)])
qed simp

lemma rename_dir_height:
  assumes "rename_dir p p' t = Inr t'" and "is_dir p t" shows "tree_height t' \<le> tree_height t"
  using assms
proof (cases rule: rename_dir_step)
  case (move q x x' es G)
  show ?thesis unfolding move(3)
    by (intro update_at_height(1)) (simp add: move(2) on_dir_def rename_step_height [OF move(4)])
qed simp

lemma rename_dir_wf:
  assumes "rename_dir p p' t = Inr t'" and "is_dir p t" and w: "wf_node t" shows "wf_node t'"
  using assms(1,2)
proof (cases rule: rename_dir_step)
  case (move q x x' es G)
  show ?thesis unfolding move(3)
  proof (rule update_at_wf(1))
    fix n assume "lookup t q = Some n" "wf_node n"
    then have "n = DirN es" "wf_node (DirN es)" using move(2) by simp_all
    then show "wf_node (on_dir G n)" using rename_step_wf [OF move(4,1)] by (simp add: on_dir_def)
  next
    show "wf_node t" by (rule w)
  qed
qed (simp add: w)

section \<open>Invariants of the walk\<close>

lemma ws_root_log_event [simp]: "ws_root (log_event e s) = ws_root s"
  by (simp add: log_event_def)

lemma read_dir_is_dir: "read_dir p t = Inr xs \<Longrightarrow> is_dir p t"
  by (simp add: read_dir_def is_dir_def split: option.splits node.splits)

text \<open>
  A relation on trees that every \<open>remove_dir\<close> and every \<open>rename_dir\<close> of a directory
  establishes holds between the tree before and after a walk, whatever its outcome.
\<close>

lemma walk_preserves_state:
  fixes R :: "walk_state \<Rightarrow> walk_state \<Rightarrow> bool"
  assumes refl: "\<And>s. R s s" and trans: "\<And>a b c. R a b \<Longrightarrow> R b c \<Longrightarrow> R a c"
    and ev: "\<And>e s. R s (log_event e s)" and tick: "\<And>k s. R s (s\<lparr>ws_tick := k\<rparr>)"
    and rm: "\<And>p s t. remove_dir p (ws_root s) = Inr t \<Longrightarrow> R s (s\<lparr>ws_root := t\<rparr>)"
    and mv: "\<And>p p' s t. rename_dir p p' (ws_root s) = Inr t \<Longrightarrow> is_dir p (ws_root s) \<Longrightarrow>
               R s (s\<lparr>ws_root := t\<rparr>)"
  shows "clean_walk clk f p s = Some (r, s') \<Longrightarrow> R s s'"
    and "clean_entries clk f p k ns s = Some (r, s') \<Longrightarrow> R s s'"
    and "handle_directory clk f p s = Some (r, s') \<Longrightarrow> R s s'"
proof (induction clk f p s and clk f p k ns s and clk f p s arbitrary: r s' and r s' and r s'
       rule: clean_walk_clean_entries_handle_directory.induct)
  case (1 clk p s)
  then show ?case by simp
next
  case (2 clk f p s)
  show ?case
  proof (cases "read_dir p (ws_root s)")
    case (Inl e)
    then show ?thesis using "2.prems" by (simp add: refl)
  next
    case (Inr names)
    obtain r0 s0 where c: "clean_entries clk f p 0 names s = Some (r0, s0)"
      using "2.prems" Inr by (cases "clean_entries clk f p 0 names s") auto
    have a: "R s s0" by (rule "2.IH" [OF Inr c])
    show ?thesis
    proof (cases "r0 = WOk")
      case True
      then have "s' = log_event CleaningComplete s0" using "2.prems" Inr c by simp
      then show ?thesis using a ev trans by blast
    next
      case False
      then have "s' = s0" using "2.prems" Inr c by (cases r0) simp_all
      then show ?thesis using a by simp
    qed
  qed
next
  case (3 clk f p k s)
  then show ?case by (simp add: refl)
next
  case (4 clk f p k n ns s)
  show ?case
  proof (cases "read_dir p (ws_root s)")
    case (Inl e)
    then show ?thesis using "4.prems" by (simp add: refl)
  next
    case (Inr cur)
    show ?thesis
    proof (cases "cur = []")
      case True
      then show ?thesis using "4.prems" Inr by (simp add: refl)
    next
      case ne: False
      define s1 where
        "s1 = log_event (Progress (Suc k) (length cur) (Suc k * 100 div length cur) (p @ [n])) s"
      have a1: "R s s1" unfolding s1_def by (rule ev)
      have pr: "(if is_dir (p @ [n]) (ws_root s1) then
                   (case handle_directory clk f (p @ [n]) s1 of
                      Some (WOk, s2) \<Rightarrow> clean_entries clk f p (Suc k) ns s2
                    | r \<Rightarrow> r)
                 else clean_entries clk f p (Suc k) ns (log_event (NotADir (p @ [n])) s1))
                = Some (r, s')"
        using "4.prems" Inr ne by (simp add: s1_def Let_def split: if_split_asm)
      show ?thesis
      proof (cases "is_dir (p @ [n]) (ws_root s1)")
        case False
        then have "clean_entries clk f p (Suc k) ns (log_event (NotADir (p @ [n])) s1) = Some (r, s')"
          using pr by simp
        then have "R (log_event (NotADir (p @ [n])) s1) s'" by (rule "4.IH"(3) [OF Inr ne s1_def False])
        then show ?thesis using a1 ev trans by blast
      next
        case d: True
        then obtain r2 s2 where h: "handle_directory clk f (p @ [n]) s1 = Some (r2, s2)"
          using pr by (auto split: option.splits)
        have a: "R s s2" using "4.IH"(1) [OF Inr ne s1_def d h] a1 trans by blast
        show ?thesis
        proof (cases "r2 = WOk")
          case True
          then have "clean_entries clk f p (Suc k) ns s2 = Some (r, s')" using pr d h by simp
          then have "R s2 s'" using "4.IH"(2) [OF Inr ne s1_def d h HOL.refl True] by simp
          then show ?thesis by (rule trans [OF a])
        next
          case False
          then have "s2 = s'" using pr d h by (cases r2) simp_all
          then show ?thesis using a by simp
        qed
      qed
    qed
  qed
next
  case (5 clk f p s)
  note u = handle_directory.simps [of clk f p s]
  show ?case
  proof (cases "read_dir p (ws_root s)")
    case (Inl e)
    then show ?thesis using "5.prems" u by (simp add: refl)
  next
    case rd: (Inr names)
    show ?thesis
    proof (cases names)
      case Nil
      show ?thesis
      proof (cases "remove_dir p (ws_root s)")
        case (Inl e)
        then show ?thesis using "5.prems" u rd Nil by (simp add: refl)
      next
        case (Inr t)
        then have "s' = log_event (RemovedEmpty p) (s\<lparr>ws_root := t\<rparr>)" using "5.prems" u rd Nil by simp
        then show ?thesis using rm [OF Inr] ev trans by blast
      qed
    next
      case (Cons a as)
      obtain new k where sa: "sanitize_at clk (ws_tick s) (file_name p) = (new, k)"
        by (cases "sanitize_at clk (ws_tick s) (file_name p)")
      define s1 where "s1 = s\<lparr>ws_tick := k\<rparr>"
      have a1: "R s s1" unfolding s1_def by (rule tick)
      have r0: "ws_root s1 = ws_root s" by (simp add: s1_def)
      have pr: "(if new \<noteq> file_name p then
                   (case rename_dir p (with_file_name p new) (ws_root s1) of
                      Inl e \<Rightarrow> Some (WErr e, s1)
                    | Inr t \<Rightarrow>
                        clean_walk clk f (with_file_name p new)
                          (log_event (RenamedFolder (file_name p) (with_file_name p new))
                             (s1\<lparr>ws_root := t\<rparr>)))
                 else clean_walk clk f p s1) = Some (r, s')"
        unfolding s1_def using "5.prems" u rd Cons sa by (simp add: Let_def split: if_split_asm)
      show ?thesis
      proof (cases "new \<noteq> file_name p")
        case nn: True
        show ?thesis
        proof (cases "rename_dir p (with_file_name p new) (ws_root s1)")
          case (Inl e)
          then show ?thesis using pr nn a1 by simp
        next
          case mvd: (Inr t)
          let ?s2 = "log_event (RenamedFolder (file_name p) (with_file_name p new)) (s1\<lparr>ws_root := t\<rparr>)"
          have w: "clean_walk clk f (with_file_name p new) ?s2 = Some (r, s')"
            using pr nn mvd by simp
          have b: "R ?s2 s'"
            using "5.IH"(1) [OF rd Cons HOL.refl sa [symmetric] HOL.refl s1_def nn mvd w] by simp
          have "R s1 (s1\<lparr>ws_root := t\<rparr>)"
            using mv [OF mvd] read_dir_is_dir [OF rd] r0 by simp
          then have "R s ?s2" using a1 ev trans by blast
          then show ?thesis using b by (rule trans)
        qed
      next
        case False
        then have "clean_walk clk f p s1 = Some (r, s')" using pr by simp
        then have "R s1 s'" using "5.IH"(2) [OF rd Cons HOL.refl sa [symmetric] HOL.refl s1_def False] by simp
        then show ?thesis by (rule trans [OF a1])
      qed
    qed
  qed
qed

text \<open>The same for a relation on the trees alone.\<close>

lemma walk_preserves:
  fixes R :: "node \<Rightarrow> node \<Rightarrow> bool"
  assumes refl: "\<And>t. R t t" and trans: "\<And>a b c. R a b \<Longrightarrow> R b c \<Longrightarrow> R a c"
    and rm: "\<And>p t t'. remove_dir p t = Inr t' \<Longrightarrow> R t t'"
    and mv: "\<And>p p' t t'. rename_dir p p' t = Inr t' \<Longrightarrow> is_dir p t \<Longrightarrow> R t t'"
  shows "clean_walk clk f p s = Some (r, s') \<Longrightarrow> R (ws_root s) (ws_root s')"
    and "clean_entries clk f p k ns s = Some (r, s') \<Longrightarrow> R (ws_root s) (ws_root s')"
    and "handle_directory clk f p s = Some (r, s') \<Longrightarrow> R (ws_root s) (ws_root s')"
  by (rule walk_preserves_state [where R = "\<lambda>a b. R (ws_root a) (ws_root b)"];
      auto intro: refl dest: rm mv elim: trans)+

text \<open>The walk only appends to its log.\<close>

lemma walk_log_prefix:
  shows "clean_walk clk f p s = Some (r, s') \<Longrightarrow> prefix (ws_log s) (ws_log s')"
    and "clean_entries clk f p k ns s = Some (r, s') \<Longrightarrow> prefix (ws_log s) (ws_log s')"
    and "handle_directory clk f p s = Some (r, s') \<Longrightarrow> prefix (ws_log s) (ws_log s')"
  by (rule walk_preserves_state [where R = "\<lambda>a b. prefix (ws_log a) (ws_log b)"];
      auto simp: log_event_def elim: prefix_order.trans)+

lemma walk_height:
  "handle_directory clk f p s = Some (r, s') \<Longrightarrow> tree_height (ws_root s') \<le> tree_height (ws_root s)"
  by (rule walk_preserves(3) [where R = "\<lambda>a b. tree_height b \<le> tree_height a"])
     (auto dest: remove_dir_height rename_dir_height)

lemma read_dir_height: "read_dir p t = Inr xs \<Longrightarrow> Suc (length p) \<le> tree_height t"
  using lookup_height(1) [of t p]
  by (fastforce simp: read_dir_def split: option.splits node.splits)

lemma length_with_file_name: "length p \<le> length (with_file_name p x)"
  by (simp add: with_file_name_def)

section \<open>Termination\<close>

text \<open>
  The walk needs one unit of fuel per directory level below the path it cleans: a
  rename keeps the depth of the path and no operation makes the tree higher.
\<close>

lemma walk_total:
  shows "tree_height (ws_root s) < length p + f \<Longrightarrow> 0 < f \<Longrightarrow> clean_walk clk f p s \<noteq> None"
    and "tree_height (ws_root s) < Suc (length p + f) \<Longrightarrow> clean_entries clk f p k ns s \<noteq> None"
    and "tree_height (ws_root s) < length p + f \<Longrightarrow> handle_directory clk f p s \<noteq> None"
proof (induction clk f p s and clk f p k ns s and clk f p s
       rule: clean_walk_clean_entries_handle_directory.induct)
  case (1 clk p s)
  then show ?case by simp
next
  case (2 clk f p s)
  then show ?case by (auto split: sum.splits option.splits walk_result.splits)
next
  case (3 clk f p k s)
  then show ?case by simp
next
  case (4 clk f p k n ns s)
  show ?case
  proof (cases "read_dir p (ws_root s)")
    case (Inl e)
    then show ?thesis by simp
  next
    case rd: (Inr cur)
    show ?thesis
    proof (cases "cur = []")
      case True
      then show ?thesis using rd by simp
    next
      case ne: False
      define s1 where
        "s1 = log_event (Progress (Suc k) (length cur) (Suc k * 100 div length cur) (p @ [n])) s"
      have eq: "clean_entries clk f p k (n # ns) s =
                 (if is_dir (p @ [n]) (ws_root s1) then
                    (case handle_directory clk f (p @ [n]) s1 of
                       Some (WOk, s2) \<Rightarrow> clean_entries clk f p (Suc k) ns s2
                     | r \<Rightarrow> r)
                  else clean_entries clk f p (Suc k) ns (log_event (NotADir (p @ [n])) s1))"
        unfolding s1_def using rd ne by (simp add: Let_def)
      have hs: "tree_height (ws_root s1) < length (p @ [n]) + f" using "4.prems" by (simp add: s1_def)
      show ?thesis
      proof (cases "is_dir (p @ [n]) (ws_root s1)")
        case False
        have "tree_height (ws_root (log_event (NotADir (p @ [n])) s1)) < Suc (length p + f)"
          using hs by simp
        then show ?thesis unfolding eq using "4.IH"(3) [OF rd ne s1_def False] False by simp
      next
        case d: True
        obtain r2 s2 where h: "handle_directory clk f (p @ [n]) s1 = Some (r2, s2)"
          using "4.IH"(1) [OF rd ne s1_def d hs] by auto
        have "tree_height (ws_root s2) \<le> tree_height (ws_root s1)" using h by (rule walk_height)
        then have "tree_height (ws_root s2) < Suc (length p + f)" using hs by simp
        then show ?thesis
          unfolding eq using d h "4.IH"(2) [OF rd ne s1_def d h HOL.refl]
          by (cases r2) simp_all
      qed
    qed
  qed
next
  case (5 clk f p s)
  note u = handle_directory.simps [of clk f p s]
  show ?case
  proof (cases "read_dir p (ws_root s)")
    case (Inl e)
    then show ?thesis using u by simp
  next
    case rd: (Inr names)
    show ?thesis
    proof (cases names)
      case Nil
      then show ?thesis using u rd by (simp split: sum.splits)
    next
      case (Cons a as)
      have f: "0 < f" using read_dir_height [OF rd] "5.prems" by simp
      obtain new k where sa: "sanitize_at clk (ws_tick s) (file_name p) = (new, k)"
        by (cases "sanitize_at clk (ws_tick s) (file_name p)")
      define s1 where "s1 = s\<lparr>ws_tick := k\<rparr>"
      have r0: "ws_root s1 = ws_root s" by (simp add: s1_def)
      have eq: "handle_directory clk f p s =
                 (if new \<noteq> file_name p then
                   (case rename_dir p (with_file_name p new) (ws_root s1) of
                      Inl e \<Rightarrow> Some (WErr e, s1)
                    | Inr t \<Rightarrow>
                        clean_walk clk f (with_file_name p new)
                          (log_event (RenamedFolder (file_name p) (with_file_name p new))
                             (s1\<lparr>ws_root := t\<rparr>)))
                 else clean_walk clk f p s1)"
        unfolding s1_def using u rd Cons sa by (simp add: Let_def)
      show ?thesis
      proof (cases "new \<noteq> file_name p")
        case nn: True
        show ?thesis
        proof (cases "rename_dir p (with_file_name p new) (ws_root s1)")
          case (Inl e)
          then show ?thesis unfolding eq using nn by simp
        next
          case mvd: (Inr t)
          have "tree_height t \<le> tree_height (ws_root s)"
            using rename_dir_height [OF _ read_dir_is_dir [OF rd]] mvd r0 by simp
          then have "tree_height (ws_root (log_event (RenamedFolder (file_name p) (with_file_name p new))
                        (s1\<lparr>ws_root := t\<rparr>))) < length (with_file_name p new) + f"
            using "5.prems" length_with_file_name [of p new] by simp
          then show ?thesis
            unfolding eq using nn mvd "5.IH"(1) [OF rd Cons HOL.refl sa [symmetric] HOL.refl s1_def nn mvd] f
            by simp
        qed
      next
        case False
        have "tree_height (ws_root s1) < length p + f" using "5.prems" r0 by simp
        then show ?thesis
          unfolding eq using False "5.IH"(2) [OF rd Cons HOL.refl sa [symmetric] HOL.refl s1_def False] f
          by simp
      qed
    qed
  qed
qed

section \<open>Emptied folders and the progress line\<close>

lemma remove_dir_first_empty:
  assumes "lookup t p = Some (DirN ((x, DirN []) # es))"
  shows "\<exists>t'. remove_dir (p @ [x]) t = Inr t' \<and> lookup t' p = Some (DirN es)"
proof -
  have "lookup t (p @ [x]) = Some (DirN [])" using assms by (simp add: lookup_snoc)
  then show ?thesis
    using assms by (simp add: remove_dir_def lookup_update_at_same on_dir_def)
qed

lemma handle_directory_removes_empty:
  assumes "lookup (ws_root s) p = Some (DirN ((x, DirN []) # es))"
  shows "\<exists>s'. handle_directory clk f (p @ [x]) s = Some (WOk, s')
              \<and> lookup (ws_root s') p = Some (DirN es) \<and> ws_tick s' = ws_tick s"
proof -
  obtain t' where r: "remove_dir (p @ [x]) (ws_root s) = Inr t'" and l: "lookup t' p = Some (DirN es)"
    using remove_dir_first_empty [OF assms] by blast
  have "read_dir (p @ [x]) (ws_root s) = Inr []" using assms by (simp add: read_dir_def lookup_snoc)
  then show ?thesis using r l by (simp add: handle_directory.simps log_event_def)
qed

lemma clean_entries_empty_prefix:
  assumes "lookup (ws_root s) p = Some (DirN (pre @ es))" and "\<forall>e \<in> set pre. snd e = DirN []"
  shows "\<exists>s2. clean_entries clk f p k (map fst (pre @ es)) s
                = clean_entries clk f p (k + length pre) (map fst es) s2
              \<and> lookup (ws_root s2) p = Some (DirN es) \<and> ws_tick s2 = ws_tick s"
  using assms
proof (induction pre arbitrary: s k)
  case Nil
  then show ?case by auto
next
  case (Cons e pre)
  obtain x where e: "e = (x, DirN [])" using Cons.prems(2) by (cases e) auto
  let ?s1 = "log_event (Progress (Suc k) (Suc (length (pre @ es))) (Suc k * 100 div Suc (length (pre @ es)))
               (p @ [x])) s"
  have l1: "lookup (ws_root ?s1) p = Some (DirN ((x, DirN []) # pre @ es))" using Cons.prems(1) e by simp
  obtain s2 where h: "handle_directory clk f (p @ [x]) ?s1 = Some (WOk, s2)"
    and l2: "lookup (ws_root s2) p = Some (DirN (pre @ es))" and t2: "ws_tick s2 = ws_tick ?s1"
    using handle_directory_removes_empty [OF l1] by blast
  obtain s3 where c: "clean_entries clk f p (Suc k) (map fst (pre @ es)) s2
                        = clean_entries clk f p (Suc k + length pre) (map fst es) s3"
    and l3: "lookup (ws_root s3) p = Some (DirN es)" and t3: "ws_tick s3 = ws_tick s2"
    using Cons.IH [OF l2, where k = "Suc k"] Cons.prems(2) by auto
  have d: "is_dir (p @ [x]) (ws_root ?s1)" using l1 by (simp add: is_dir_def lookup_snoc)
  have "read_dir p (ws_root s) = Inr (x # map fst (pre @ es))"
    using Cons.prems(1) e by (simp add: read_dir_def)
  then have "clean_entries clk f p k (map fst ((e # pre) @ es)) s
               = clean_entries clk f p (k + length (e # pre)) (map fst es) s3"
    using e d h c by (simp add: Let_def)
  then show ?case using l3 t3 t2 by (auto simp: log_event_def)
qed

lemma clean_entries_empty_children:
  assumes "lookup (ws_root s) p = Some (DirN es)" and "\<forall>e \<in> set es. snd e = DirN []"
  shows "\<exists>s'. clean_entries clk f p k (map fst es) s = Some (WOk, s')
              \<and> lookup (ws_root s') p = Some (DirN []) \<and> ws_tick s' = ws_tick s"
  using clean_entries_empty_prefix [where es = "[]" and pre = es] assms by auto

text \<open>Whatever happens to an entry, the progress line printed before it stays in the log.\<close>

lemma clean_entries_logs_progress:
  assumes "clean_entries clk f p k (n # ns) s = Some (r, s')"
    and "read_dir p (ws_root s) = Inr cur" and "cur \<noteq> []"
  shows "Progress (Suc k) (length cur) (Suc k * 100 div length cur) (p @ [n]) \<in> set (ws_log s')"
proof -
  define s1 where "s1 = log_event (Progress (Suc k) (length cur) (Suc k * 100 div length cur) (p @ [n])) s"
  have pr: "(if is_dir (p @ [n]) (ws_root s1) then
               (case handle_directory clk f (p @ [n]) s1 of
                  Some (WOk, s2) \<Rightarrow> clean_entries clk f p (Suc k) ns s2
                | r \<Rightarrow> r)
             else clean_entries clk f p (Suc k) ns (log_event (NotADir (p @ [n])) s1))
            = Some (r, s')"
    using assms by (simp add: s1_def Let_def split: if_split_asm)
  have "prefix (ws_log s1) (ws_log s')"
  proof (cases "is_dir (p @ [n]) (ws_root s1)")
    case False
    then have "prefix (ws_log (log_event (NotADir (p @ [n])) s1)) (ws_log s')"
      using pr walk_log_prefix(2) by simp
    then show ?thesis by (auto simp: log_event_def elim: prefix_order.trans [rotated])
  next
    case True
    then obtain r2 s2 where h: "handle_directory clk f (p @ [n]) s1 = Some (r2, s2)"
      using pr by (auto split: option.splits)
    have a: "prefix (ws_log s1) (ws_log s2)" using walk_log_prefix(3) [OF h] .
    show ?thesis
    proof (cases "r2 = WOk")
      case True
      then have "clean_entries clk f p (Suc k) ns s2 = Some (r, s')" using pr \<open>is_dir _ _\<close> h by simp
      then show ?thesis using a walk_log_prefix(2) by (blast intro: prefix_order.trans)
    next
      case False
      then have "s2 = s'" using pr \<open>is_dir _ _\<close> h by (cases r2) simp_all
      then show ?thesis using a by simp
    qed
  qed
  then show ?thesis by (auto simp: s1_def log_event_def dest: set_mono_prefix)
qed

section \<open>Properties of the walk\<close>

text \<open>
  C31 (termination): \<open>clean\<close> returns on every tree, at every path and with every clock:
  with one unit of fuel more than the height of the tree the model gives an outcome
  (success, an I/O error or a panic), never the exhausted fuel.
\<close>

theorem clean_walk_terminates:
  "\<exists>r s'. clean_walk clk (Suc (tree_height (ws_root s))) p s = Some (r, s')"
  using walk_total(1) [of s p "Suc (tree_height (ws_root s))" clk] by auto

text \<open>
  C21 (error): the progress line divides by the current number of entries, which the
  removal of empty folders shrinks. When the first \<open>j\<close> entries of a folder are empty
  folders, the walk, which returns, reports the next entry as number \<open>j + 1\<close> of the
  \<open>m\<close> that remain from it on, so past 100\<percent> as soon as \<open>j \<ge> m\<close>.
\<close>

theorem clean_walk_progress_overcounts:
  assumes "lookup (ws_root s) p = Some (DirN (pre @ e # rest))" and "\<forall>d \<in> set pre. snd d = DirN []"
  shows "\<exists>r s'. clean_walk clk (Suc (tree_height (ws_root s))) p s = Some (r, s')
           \<and> Progress (Suc (length pre)) (Suc (length rest)) (Suc (length pre) * 100 div Suc (length rest))
                (p @ [fst e]) \<in> set (ws_log s')"
proof -
  let ?f = "tree_height (ws_root s)"
  have rd: "read_dir p (ws_root s) = Inr (map fst (pre @ e # rest))" using assms(1) by (simp add: read_dir_def)
  obtain s2 where c: "clean_entries clk ?f p 0 (map fst (pre @ e # rest)) s
                        = clean_entries clk ?f p (length pre) (map fst (e # rest)) s2"
    and l2: "lookup (ws_root s2) p = Some (DirN (e # rest))"
    using clean_entries_empty_prefix [OF assms, where clk = clk and f = ?f and k = 0] by auto
  obtain r0 s0 where c0: "clean_entries clk ?f p 0 (map fst (pre @ e # rest)) s = Some (r0, s0)"
    using walk_total(2) [of s p ?f clk 0 "map fst (pre @ e # rest)"] by auto
  have "Progress (Suc (length pre)) (Suc (length rest)) (Suc (length pre) * 100 div Suc (length rest))
          (p @ [fst e]) \<in> set (ws_log s0)"
    using clean_entries_logs_progress [of clk ?f p "length pre" "fst e" "map fst rest" s2 r0 s0]
          c c0 l2 by (simp add: read_dir_def)
  then show ?thesis using rd c0 by (cases r0) (auto simp: log_event_def)
qed

theorem clean_walk_progress_overcounts_witness:
  "\<exists>r s'. clean_walk (\<lambda>_. \<lparr>ts_year = 2024, ts_month = 5, ts_day = 17,
       ts_hour = 9, ts_minute = 7, ts_second = 0\<rparr>) 4 [''content'']
     \<lparr>ws_root = DirN [(''content'', DirN [(''a'', DirN []), (''b'', DirN []), (''x.txt'', FileN)])],
      ws_tick = 0, ws_log = []\<rparr> = Some (r, s')
   \<and> Progress 3 1 300 [''content'', ''x.txt''] \<in> set (ws_log s')"
proof -
  have t: "(3::nat) = Suc (Suc (Suc 0))" "(4::nat) = Suc (Suc (Suc (Suc 0)))" by simp_all
  show ?thesis
    unfolding t
  using clean_walk_progress_overcounts
    [where s = "\<lparr>ws_root = DirN [(''content'', DirN [(''a'', DirN []), (''b'', DirN []), (''x.txt'', FileN)])],
                 ws_tick = 0, ws_log = []\<rparr>"
       and p = "[''content'']" and pre = "[(''a'', DirN []), (''b'', DirN [])]" and e = "(''x.txt'', FileN)"
       and rest = "[]" and clk = "\<lambda>_. \<lparr>ts_year = 2024, ts_month = 5, ts_day = 17,
       ts_hour = 9, ts_minute = 7, ts_second = 0\<rparr>"]
    by (simp del: clean_walk.simps clean_entries.simps)
qed

text \<open>
  The walk never deletes a file. Whatever its outcome, the tree after
  \<open>clean\<close> holds as many files as before: \<open>remove_dir\<close> only takes empty directories
  and a rename only replaces an empty one.
\<close>

theorem clean_walk_keeps_files:
  assumes "clean_walk clk f p s = Some (r, s')"
  shows "nfiles (ws_root s') = nfiles (ws_root s)"
  by (rule walk_preserves(1) [where R = "\<lambda>a b. nfiles b = nfiles a", OF _ _ _ _ assms])
     (auto dest: remove_dir_nfiles rename_dir_nfiles)

theorem clean_walk_keeps_files_witness:
  "nfiles (ws_root (snd (the (clean_walk (\<lambda>_. \<lparr>ts_year = 2024, ts_month = 5, ts_day = 17,
       ts_hour = 9, ts_minute = 3, ts_second = 0\<rparr>) 3 [''c'']
     \<lparr>ws_root = DirN [(''c'', DirN [(''[A] Book'', DirN [(''1'', FileN)]),
                                   (''[B] Book'', DirN [(''2'', FileN)]), (''e'', DirN [])])],
      ws_tick = 0, ws_log = []\<rparr>)))) = 2"
proof -
  have e: "clean_walk (\<lambda>_. \<lparr>ts_year = 2024, ts_month = 5, ts_day = 17,
       ts_hour = 9, ts_minute = 3, ts_second = 0\<rparr>) 3 [''c'']
     \<lparr>ws_root = DirN [(''c'', DirN [(''[A] Book'', DirN [(''1'', FileN)]),
                                   (''[B] Book'', DirN [(''2'', FileN)]), (''e'', DirN [])])],
      ws_tick = 0, ws_log = []\<rparr>
     = Some (WErr (DirectoryNotEmpty [''c'', ''book'']),
        \<lparr>ws_root = DirN [(''c'', DirN [(''book'', DirN [(''1'', FileN)]),
                                      (''[B] Book'', DirN [(''2'', FileN)]), (''e'', DirN [])])],
         ws_tick = 0,
         ws_log = [Progress 1 3 33 [''c'', ''[A] Book''],
                   RenamedFolder ''[A] Book'' [''c'', ''book''],
                   Progress 1 1 100 [''c'', ''book'', ''1''],
                   NotADir [''c'', ''book'', ''1''], CleaningComplete,
                   Progress 2 3 66 [''c'', ''[B] Book'']]\<rparr>)"
    by code_simp
  show ?thesis using clean_walk_keeps_files [OF e] e by simp
qed

text \<open>
  The walk keeps the tree a file system can hold: in every directory
  the names stay distinct and non-empty, whatever the outcome. A rename onto an existing
  empty directory replaces it instead of adding a second entry of that name.
\<close>

theorem clean_walk_wf:
  assumes "wf_node (ws_root s)" and "clean_walk clk f p s = Some (r, s')"
  shows "wf_node (ws_root s')"
proof -
  have "wf_node (ws_root s) \<longrightarrow> wf_node (ws_root s')"
    by (rule walk_preserves(1) [where R = "\<lambda>a b. wf_node a \<longrightarrow> wf_node b", OF _ _ _ _ assms(2)])
       (auto dest: remove_dir_wf rename_dir_wf)
  then show ?thesis using assms(1) by simp
qed

theorem clean_walk_wf_witness:
  "wf_node (ws_root (snd (the (clean_walk (\<lambda>_. \<lparr>ts_year = 2024, ts_month = 5, ts_day = 17,
       ts_hour = 9, ts_minute = 3, ts_second = 0\<rparr>) 3 [''c'']
     \<lparr>ws_root = DirN [(''c'', DirN [(''My Book'', DirN [(''1'', FileN)]), (''my-book'', DirN [])])],
      ws_tick = 0, ws_log = []\<rparr>))))"
proof -
  have w: "wf_node (DirN [(''c'', DirN [(''My Book'', DirN [(''1'', FileN)]), (''my-book'', DirN [])])])"
    by simp
  have e: "clean_walk (\<lambda>_. \<lparr>ts_year = 2024, ts_month = 5, ts_day = 17,
       ts_hour = 9, ts_minute = 3, ts_second = 0\<rparr>) 3 [''c'']
     \<lparr>ws_root = DirN [(''c'', DirN [(''My Book'', DirN [(''1'', FileN)]), (''my-book'', DirN [])])],
      ws_tick = 0, ws_log = []\<rparr>
     = Some (WOk,
        \<lparr>ws_root = DirN [(''c'', DirN [(''mybook'', DirN [(''1'', FileN)])])],
         ws_tick = 0,
         ws_log = [Progress 1 2 50 [''c'', ''My Book''],
                   RenamedFolder ''My Book'' [''c'', ''my-book''],
                   Progress 1 1 100 [''c'', ''my-book'', ''1''],
                   NotADir [''c'', ''my-book'', ''1''], CleaningComplete,
                   Progress 2 1 200 [''c'', ''my-book''],
                   RenamedFolder ''my-book'' [''c'', ''mybook''],
                   Progress 1 1 100 [''c'', ''mybook'', ''1''],
                   NotADir [''c'', ''mybook'', ''1''], CleaningComplete,
                   CleaningComplete]\<rparr>)"
    by code_simp
  show ?thesis using clean_walk_wf [OF _ e] w e by simp
qed

text \<open>
  C26 (error): two folders whose names sanitize alike make the walk fail. When the
  sanitized name of a non-empty folder is that of a non-empty sibling, the rename
  fails with \<open>ENOTEMPTY\<close>, \<open>handle_directory\<close> returns the error and the \<open>?\<close> of
  \<open>clean\<close> ends the walk: the folders after it in the listing are never visited.
\<close>

theorem handle_directory_collision:
  assumes d: "lookup (ws_root s) p = Some (DirN (e # es))"
    and n: "fst (sanitize_at clk (ws_tick s) (file_name p)) = new"
    and ne: "new \<noteq> file_name p" and p: "p \<noteq> []" and nn: "new \<noteq> []"
    and o: "lookup (ws_root s) (with_file_name p new) = Some (DirN (e' # es'))"
  shows "\<exists>s'. handle_directory clk f p s
               = Some (WErr (DirectoryNotEmpty (with_file_name p new)), s')
             \<and> ws_root s' = ws_root s"
proof -
  obtain k where sa: "sanitize_at clk (ws_tick s) (file_name p) = (new, k)"
    using n by (cases "sanitize_at clk (ws_tick s) (file_name p)") simp
  have rd: "read_dir p (ws_root s) = Inr (map fst (e # es))"
    using d by (simp add: read_dir_def)
  have ls: "last (with_file_name p new) = new" "butlast (with_file_name p new) = butlast p"
    by (simp_all add: with_file_name_def)
  have "p \<noteq> with_file_name p new"
    using ne p ls(1) by (auto simp: file_name_def)
  then have "rename_dir p (with_file_name p new) (ws_root s)
               = Inl (DirectoryNotEmpty (with_file_name p new))"
    using d o p nn ls by (simp add: rename_dir_def with_file_name_def)
  then show ?thesis
    using rd sa ne by (simp add: handle_directory.simps Let_def)
qed

theorem handle_directory_collision_witness:
  "\<exists>s'. handle_directory (\<lambda>_. \<lparr>ts_year = 2024, ts_month = 5, ts_day = 17,
            ts_hour = 9, ts_minute = 3, ts_second = 0\<rparr>) 2 [''c'', ''[B] Book'']
          \<lparr>ws_root = DirN [(''c'', DirN [(''book'', DirN [(''1'', FileN)]),
                                        (''[B] Book'', DirN [(''2'', FileN)])])],
           ws_tick = 0, ws_log = []\<rparr>
        = Some (WErr (DirectoryNotEmpty [''c'', ''book'']), s')
      \<and> ws_root s' = DirN [(''c'', DirN [(''book'', DirN [(''1'', FileN)]),
                                         (''[B] Book'', DirN [(''2'', FileN)])])]"
proof -
  have n: "fst (sanitize_at (\<lambda>_. \<lparr>ts_year = 2024, ts_month = 5, ts_day = 17,
            ts_hour = 9, ts_minute = 3, ts_second = 0\<rparr>) 0 (file_name [''c'', ''[B] Book'']))
           = ''book''"
    by code_simp
  show ?thesis
    using handle_directory_collision
      [where clk = "\<lambda>_. \<lparr>ts_year = 2024, ts_month = 5, ts_day = 17,
                            ts_hour = 9, ts_minute = 3, ts_second = 0\<rparr>"
         and f = 2 and p = "[''c'', ''[B] Book'']" and new = "''book''"
         and s = "\<lparr>ws_root = DirN [(''c'', DirN [(''book'', DirN [(''1'', FileN)]),
                                                (''[B] Book'', DirN [(''2'', FileN)])])],
                   ws_tick = 0, ws_log = []\<rparr>"
         and e = "(''2'', FileN)" and es = "[]" and e' = "(''1'', FileN)" and es' = "[]"] n
    by (simp add: file_name_def with_file_name_def)
qed

text \<open>
  C33 (functional): a folder whose entries are all empty folders is emptied and left
  behind. \<open>handle_directory\<close> tests for emptiness before it cleans a folder, so when the
  folder keeps its name, the walk removes each of its entries, returns \<open>Ok\<close>, and the
  folder itself remains, now empty.
\<close>

theorem handle_directory_leaves_emptied_folder:
  assumes "lookup (ws_root s) p = Some (DirN es)" and "es \<noteq> []"
    and "\<forall>e \<in> set es. snd e = DirN []"
    and "fst (sanitize_at clk (ws_tick s) (file_name p)) = file_name p"
  shows "\<exists>s'. handle_directory clk (Suc f) p s = Some (WOk, s') \<and> lookup (ws_root s') p = Some (DirN [])"
proof -
  obtain k where sa: "sanitize_at clk (ws_tick s) (file_name p) = (file_name p, k)"
    using assms(4) by (cases "sanitize_at clk (ws_tick s) (file_name p)") simp
  obtain s' where c: "clean_entries clk f p 0 (map fst es) (s\<lparr>ws_tick := k\<rparr>) = Some (WOk, s')"
    and l: "lookup (ws_root s') p = Some (DirN [])"
    using clean_entries_empty_children [where s = "s\<lparr>ws_tick := k\<rparr>" and p = p and es = es and clk = clk
                                          and f = f and k = 0] assms(1,3) by auto
  have rd: "read_dir p (ws_root s) = Inr (map fst es)" using assms(1) by (simp add: read_dir_def)
  obtain e es' where "es = e # es'" using assms(2) by (cases es) auto
  then show ?thesis
    using rd sa c l by (simp add: handle_directory.simps Let_def log_event_def)
qed

theorem handle_directory_leaves_emptied_folder_witness:
  "\<exists>s'. handle_directory (\<lambda>_. \<lparr>ts_year = 2024, ts_month = 5, ts_day = 17,
       ts_hour = 9, ts_minute = 3, ts_second = 0\<rparr>) 1 [''content'', ''b'']
     \<lparr>ws_root = DirN [(''content'', DirN [(''b'', DirN [(''c'', DirN []), (''d'', DirN [])])])],
      ws_tick = 0, ws_log = []\<rparr> = Some (WOk, s')
   \<and> lookup (ws_root s') [''content'', ''b''] = Some (DirN [])"
proof -
  have n: "fst (sanitize_at (\<lambda>_. \<lparr>ts_year = 2024, ts_month = 5, ts_day = 17,
       ts_hour = 9, ts_minute = 3, ts_second = 0\<rparr>) 0 (file_name [''content'', ''b''])) = file_name [''content'', ''b'']"
    by code_simp
  show ?thesis
    using handle_directory_leaves_emptied_folder
      [where s = "\<lparr>ws_root = DirN [(''content'', DirN [(''b'', DirN [(''c'', DirN []), (''d'', DirN [])])])],
                   ws_tick = 0, ws_log = []\<rparr>"
         and p = "[''content'', ''b'']" and es = "[(''c'', DirN []), (''d'', DirN [])]" and f = 0] n
    by simp
qed

text \<open>
  The walk on a small content folder, with the log it prints. The
  empty folder \<open>a\<close> is removed; \<open>b\<close>, whose only entry is the empty \<open>c\<close>, loses \<open>c\<close> but
  stays, empty, because it was not empty when it was looked at; \<open>My Title\<close> becomes
  \<open>my-title\<close>; the file \<open>x.txt\<close> is reported as not a directory. The progress line
  divides by the current number of entries, which removals shrink, and reports the
  fourth of four entries as 4/3, 133\<percent>.
\<close>

theorem clean_walk_example:
  "clean_walk (\<lambda>_. \<lparr>ts_year = 2024, ts_month = 5, ts_day = 17,
       ts_hour = 9, ts_minute = 3, ts_second = 0\<rparr>) 3 [''content'']
     \<lparr>ws_root = DirN [(''content'', DirN [(''a'', DirN []), (''b'', DirN [(''c'', DirN [])]),
                        (''My Title'', DirN [(''p.jpg'', FileN)]), (''x.txt'', FileN)])],
      ws_tick = 0, ws_log = []\<rparr>
   = Some (WOk,
      \<lparr>ws_root = DirN [(''content'', DirN [(''b'', DirN []),
                          (''my-title'', DirN [(''p.jpg'', FileN)]), (''x.txt'', FileN)])],
       ws_tick = 0,
       ws_log =
        [Progress 1 4 25 [''content'', ''a''], RemovedEmpty [''content'', ''a''],
         Progress 2 3 66 [''content'', ''b''],
         Progress 1 1 100 [''content'', ''b'', ''c''], RemovedEmpty [''content'', ''b'', ''c''],
         CleaningComplete,
         Progress 3 3 100 [''content'', ''My Title''],
         RenamedFolder ''My Title'' [''content'', ''my-title''],
         Progress 1 1 100 [''content'', ''my-title'', ''p.jpg''],
         NotADir [''content'', ''my-title'', ''p.jpg''], CleaningComplete,
         Progress 4 3 133 [''content'', ''x.txt''], NotADir [''content'', ''x.txt''],
         CleaningComplete]\<rparr>)"
  by code_simp

text \<open>
  A folder whose name is only an end word (\<open>Chapter\<close>, \<open>English\<close>, ...) sanitizes to
  the empty name; \<open>with_file_name\<close> then names the parent directory itself, the rename
  fails with \<open>EINVAL\<close> and the walk ends there.
\<close>

lemma sanitize_end_word_empty: "sanitize_filename now ''Chapter'' = []"
  by code_simp

lemma handle_directory_empty_name:
  assumes d: "lookup (ws_root s) p = Some (DirN (e # es))"
    and n: "fst (sanitize_at clk (ws_tick s) (file_name p)) = []"
    and p: "p \<noteq> []" and nn: "file_name p \<noteq> []"
  shows "\<exists>s'. handle_directory clk f p s = Some (WErr (InvalidArgument (with_file_name p [])), s')"
proof -
  obtain k where sa: "sanitize_at clk (ws_tick s) (file_name p) = ([], k)"
    using n by (cases "sanitize_at clk (ws_tick s) (file_name p)") simp
  have rd: "read_dir p (ws_root s) = Inr (map fst (e # es))"
    using d by (simp add: read_dir_def)
  have "rename_dir p (with_file_name p []) (ws_root s) = Inl (InvalidArgument (with_file_name p []))"
    using p by (simp add: rename_dir_def with_file_name_def)
  then show ?thesis
    using rd sa nn by (simp add: handle_directory.simps Let_def)
qed

end
