(* ===== verification/Spec2Isabelle.thy ===== *)
theory Spec2Isabelle
  imports Fs_Invariant Dir_Walk
begin

text \<open>
  A verification development of the archive image-normalization engine of
  media-organizer-rust (src/src/archive_cleaner.rs), of the format dispatcher that
  feeds it (src/src/file_handler.rs) and of the folder formatter
  (src/src/formatter.rs), a shallow embedding in HOL.

  \<^bold>\<open>The program.\<close> \<open>ArchiveCleaner::clean_archive_file\<close> reads the images of a zip
  container (Archive Reader), scans the first \<open>max_images_to_check\<close> of them
  (Layout Classifier, \<open>should_write_archive\<close>, \<open>image_meets_criteria\<close>) and, when one is
  oversized, rewrites the archive as a strip (\<open>process_manhwa_images\<close>: stitch all pages
  with \<open>combine_images\<close>, cut the canvas into bands of \<open>min_image_size.height\<close> rows) or
  as pages (\<open>process_non_manhwa_images\<close>: one thread per page runs \<open>process_image\<close>,
  which shrinks the page with \<open>thumbnail\<close>, all threads sharing one
  \<open>Mutex<ZipWriter>\<close>). Both write \<open><n>.webp\<close> entries (\<open>encode_webp\<close>, the Image Codec
  Adapter) into \<open><name>.temp.cbz\<close> and rename it to \<open><name>.cbz\<close> (Archive Writer).
  \<open>FileHandler::clean\<close> picks a handler by the file's extension: a zip goes to the
  cleaning pass through \<open>FileHandler::clean_archive_file\<close>, which prints and drops the
  pass's result; a tar or rar archive is first converted to \<open><name>.zip\<close>; images are
  saved as WebP thumbnails, big gifs shrunk, videos transcoded by \<open>ffmpeg\<close>.
  Separately, \<open>formatter::clean\<close> walks a content folder: \<open>handle_directory\<close> removes
  each empty subfolder and renames every other one to \<open>sanitize_filename\<close> of its name
  (groups in brackets removed, slugified, end words and a date suffix cut), then
  cleans it in turn.

  \<^bold>\<open>Theories.\<close>
  \<^item> \<open>Prelude\<close>: machine types (\<open>u32 = 32 word\<close>), \<open>str::ends_with\<close>,
    \<open>str::rsplit_once\<close>, the decimal rendering of \<open>format!("{}", n)\<close> with its parser and
    round trip, the lemma collections \<open>dims_simps\<close> and \<open>names_simps\<close>.
  \<^item> \<open>Image_Model\<close>: \<open>DynamicImage\<close> as a record of \<open>u32\<close> dimensions and an RGBA8 pixel
    function; \<open>new_rgba8\<close> and \<open>crop_imm\<close> (with its clamping) from the image crate;
    \<open>copy_from\<close> as the crate computes it, a bounds test in wrapping \<open>u32\<close> arithmetic
    (failure: \<open>DimensionMismatch\<close>) and then a \<open>put_pixel\<close> loop that panics on the first
    index outside the target (\<open>IndexOutOfBounds\<close>), in closed form; the interfaces \<open>resampler\<close> (contract: the output has
    the requested size) and \<open>webp_encoder\<close>; \<open>encode_webp\<close>.
  \<^item> \<open>Filesystem\<close>: \<open>std::fs\<close> and the zip crate over a file system with inodes (an
    open writer keeps its inode across a rename), errors as the \<open>outcome\<close> datatype
    (\<open>Ok\<close>, \<open>Err\<close>, \<open>Panic\<close>), a state-exception monad \<open>st\<close>, a fault oracle
    \<open>fs_fails\<close> deciding each I/O operation, the writer's \<open>Drop\<close> (\<open>zip_drop\<close>, which
    writes the central directory and swallows its error), \<open>extract_file_info\<close>.
  \<^item> \<open>Archive_Writer\<close>: frame conditions and results of the writer operations, entry
    names, the temporary and final paths.
  \<^item> \<open>Classifier\<close>: \<open>ArchiveCleaner\<close>, \<open>should_write_archive\<close> in \<open>u32\<close> arithmetic, and
    the abstract first-match classifier \<open>classify\<close> over the naturals.
  \<^item> \<open>Strip_Transform\<close>: \<open>combine_images\<close> (loop \<open>combine_loop\<close>), \<open>crop_image\<close>, the
    band loop \<open>write_slices\<close>, \<open>process_manhwa_images\<close>; the specification
    \<open>stack_pixel\<close> of the canvas and \<open>strip_entries\<close> of the output.
  \<^item> \<open>Archive_Reader\<close>: \<open>is_image\<close>, \<open>read_images_from_archive\<close> (loop
    \<open>read_entries\<close>) with the decoder as an interface.
  \<^item> \<open>Paged_Transform\<close>: \<open>resize_dimensions\<close> and \<open>thumbnail\<close>, \<open>process_image\<close> as a
    transformer of the state the threads share (\<open>paged_state\<close>: file system, writer,
    mutex owner and poison flag, progress count, spinner messages), the threads of
    \<open>process_images_threaded\<close> as the inductive relation \<open>paged_step\<close>, the sequential
    semantics \<open>run_seq\<close>, \<open>process_non_manhwa_images\<close>.
  \<^item> \<open>Cleaner\<close>: \<open>write_archive\<close> and \<open>clean_archive_file\<close>.
  \<^item> \<open>File_Handler\<close>: \<open>FileHandler\<close> (record \<open>file_handler\<close>), \<open>FileHandler::new\<close>,
    \<open>clean\<close> with its match as \<open>dispatch\<close> into the datatype \<open>handler\<close>, each
    \<open>handle_*_file\<close>, \<open>tar_to_zip\<close> and \<open>rar_to_zip\<close> with their loops \<open>tar_copy\<close> and
    \<open>rar_copy\<close>, \<open>get_supported_extensions\<close>. Each \<open>map_err(..)?\<close> is
    \<open>with_context\<close>. The libraries are the fields of \<open>fh_env\<close>: the tar reader (the
    entries, or a failure), the unrar reader (a list of items, a failing one panics as
    \<open>expect\<close> does), image decoding and saving, the clock, and \<open>ffmpeg\<close> (its status,
    stderr and the bytes it wrote) on an output path that does not exist yet;
    \<open>run_ffmpeg\<close> adds what the command line fixes: without \<open>-y\<close> and with the closed
    standard input of \<open>output()\<close>, \<open>ffmpeg\<close> refuses an existing output, writes nothing
    and fails. \<open>std::fs::remove_file\<close>, \<open>Path::exists\<close>, saving a
    file and \<open>ZipWriter::finish\<close> are in \<open>Filesystem\<close>.
  \<^item> \<open>Fs_Invariant\<close>: the type invariant \<open>fs_wf\<close> of the file-system model (no
    directory entry dangles, nothing at or above \<open>fs_next\<close> is allocated), a Hoare
    triple \<open>wf_st\<close> for the monad with rules for bind, \<open>with_context\<close>, a guarded error
    and \<open>expect\<close>, and the proof that every operation keeps the invariant: the
    primitives, the loops, the strip pass, each thread of the paged pass and their
    sequential runs, the cleaning pass, the conversions and the handlers.
  \<^item> \<open>Formatter\<close>: \<open>custom_slugify\<close>, \<open>sanitize_filename\<close> and \<open>sep_author_name\<close>;
    every regular expression as a recursive function with the regex crate's
    leftmost-first semantics (\<open>remove_groups\<close> for \<open>\[.*?\]\<close> and its kin,
    \<open>strip_end_word\<close> for \<open>(\s*word[-]*)+$\<close>, \<open>strip_datetime\<close>, \<open>squeeze_ws\<close>,
    \<open>collapse_hyphens\<close>), characters below U+0100 with Unicode white space, the clock
    a parameter (\<open>timestamp\<close>, \<open>format_timestamp\<close>).
  \<^item> \<open>Dir_Walk\<close>: \<open>clean\<close> and \<open>handle_directory\<close> as the mutually recursive
    \<open>clean_walk\<close>, \<open>clean_entries\<close> (the loop) and \<open>handle_directory\<close> over a directory
    tree (\<open>node\<close>) with \<open>read_dir\<close>, \<open>remove_dir\<close> and \<open>rename_dir\<close> and their POSIX
    errors; the printed lines are the log of \<open>walk_state\<close>; the \<open>k\<close>-th read of the
    clock is \<open>clk k\<close>. The lemma \<open>walk_preserves_state\<close> lifts any relation that
    logging, the clock and the two mutating operations establish to the whole walk;
    \<open>walk_preserves\<close> (on trees) and \<open>walk_log_prefix\<close> are its instances.
  \<^item> this theory: the spec's concrete scenarios and properties across components.

  \<^bold>\<open>What is proved.\<close> C1 the classifier refines first-match classification; C2, C23,
  C24 the strip and paged passes and the whole pass produce the specified containers;
  C3, C10, C22 the original archive survives every failure, a \<open>.zip\<close> original is never
  replaced, an unselected archive leaves the file system unchanged; C4, C5 the canvas
  is the stacked pages and the bands tile it, every row in exactly one band; C6 no
  archive of pages at most the threshold wide is rewritten (so the spec's first
  scenario is not), C7 the spec's second scenario; C9 strip output is never rewritten
  again; C11 the names of the entries of the container the strip pass leaves; C17 the
  complete interleavings of the paged threads are the sequential runs; C18 the paged
  output does not depend on the schedule; C20 the thumbnail bounds; C25 the reader.
  The error and bounds claims C13 to C16 and C19 record how the code departs from the
  spec: a height sum past \<open>2^32\<close> always ends in a panic (of \<open>copy_from\<close>'s \<open>expect\<close> or
  of \<open>put_pixel\<close>), \<open>3 * w\<close> misclassifies exactly the pages where it wraps onto a
  value at most their height, \<open>num_slices\<close> wraps to no band at all, the container is
  finished after the rename, and small pages are dropped. For the dispatcher: C28 a tar
  archive converts to a zip that reads back as its entries; C32 the image handler; C35
  the video handler on a fresh output path. The error claims C29, C30 and C34 record
  that a converted tar is never cleaned (the cleaner is given the original path), that
  \<open>webp\<close> is advertised but rejected, and that \<open>ffmpeg\<close> refuses an existing output,
  so an \<open>.mp4\<close> input is kept and the handler fails. For the formatter: C8 every
  sanitized name is a trimmed slug; the error claims C12 and C27 show that slugifying
  is not idempotent (\<open>my-title\<close> becomes \<open>mytitle\<close>) and that the time stamp given to
  empty names is always cut off again. For the walk: C31 it terminates on every tree;
  C33 a folder whose entries are all empty folders is emptied and left behind; the
  error claims C21, that the progress line counts past 100\<percent> after removals, and
  C26, that two folders sanitizing alike stop the walk with \<open>ENOTEMPTY\<close>. Library
  results that are not claims: \<open>Fs_Invariant.clean_preserves_fs_wf\<close> (every handler
  keeps the file system well formed), \<open>Dir_Walk.clean_walk_keeps_files\<close> and
  \<open>Dir_Walk.clean_walk_wf\<close> (the walk deletes no file and keeps names distinct).

  \<^bold>\<open>Bounds, fuel and schedules.\<close> Widths and heights are \<open>u32\<close> words and wrap as in
  a release build; a theorem that needs exact arithmetic says so (\<open>no_wrap\<close>:
  \<open>3 w < 2^32\<close>; \<open>slices_fit\<close>: \<open>height + slice_height \<le> 2^32\<close>; heights summing below
  \<open>2^32\<close>), and a bounds claim shows the behaviour beyond. The loops of the archive
  code are structural recursion over lists. The directory walk recurses on paths of a
  tree it changes, so it takes fuel, one unit per directory level; \<open>walk_total\<close> shows
  that one more than the height of the tree always suffices (a rename keeps the depth
  of the path, no operation makes the tree higher), so C31 is an unconditional
  termination result. The thread scheduler is a parameter of the paged pass, the order
  in which the threads take the lock; C17 shows that the complete interleavings are
  exactly the sequential runs over the permutations, so quantifying over permutations
  covers every schedule.

  \<^bold>\<open>Not modelled.\<close> Pixel values of the resampling filters (Lanczos3, thumbnail) and
  the bytes of WebP and image decoding, which are interfaces with a contract on sizes;
  \<open>f64\<close> rounding in \<open>resize_dimensions\<close> (exact rationals here); the progress-bar
  rendering (only the count and the last message are kept); the per-entry errors of the
  tar reader (an entry or its path failing to read), which the model folds into the
  reader failing as a whole; the partial writes \<open>Write::write\<close> may do in
  \<open>rar_to_zip\<close> (taken as writing all the data). In the walk: the I/O errors POSIX
  gives for reasons outside the tree (permissions, a full disk), entries whose
  \<open>DirEntry\<close> read fails (dropped by \<open>filter_map(Result::ok)\<close>), symbolic links, and the
  entries a lazy \<open>ReadDir\<close> may or may not report after the loop renames them (the model
  lists a directory once). Characters from U+0100 on, which \<open>char\<close> cannot hold. The
  command-line entry points (src/src/main.rs, src/bin/*.rs) parse arguments or open a
  file dialog and then make one call into \<open>clean_archive_file\<close>, \<open>FileHandler::clean\<close>
  or \<open>formatter::main\<close>, which are modelled; the rest is printing.
\<close>

section \<open>The spec's scenarios\<close>

text \<open>
  C6 (functional): a page no wider than the threshold never makes the scan rewrite an
  archive, however tall it is: an image with \<open>h < 3 w\<close> counts only when it exceeds
  \<open>min_image_size\<close> in both dimensions. This is where the code departs from the spec's
  first scenario (pages 800x1000, 800x1100, 800x1050 against 1024x1024), which expects
  the 800x1100 page to trigger a paged rewrite.
\<close>

theorem narrow_pages_not_rewritten:
  assumes "\<forall>i \<in> set (take m imgs).
             img_width i \<le> width (min_image_size c) \<and> img_height i < 3 * img_width i"
  shows "\<not> fst (should_write_archive c imgs m)"
  unfolding should_write_archive_def
  using assms by (intro should_write_loop_none) (auto simp: image_meets_criteria_def not_less)

theorem narrow_pages_not_rewritten_witness:
  "\<not> fst (should_write_archive (ArchiveCleaner_new [''a.cbz''])
          [new_rgba8 800 1000, new_rgba8 800 1100, new_rgba8 800 1050] 5)"
proof -
  have h: "\<forall>i \<in> set (take 5 [new_rgba8 800 1000, new_rgba8 800 1100, new_rgba8 800 1050]).
             img_width i \<le> width (min_image_size (ArchiveCleaner_new [''a.cbz'']))
             \<and> img_height i < 3 * img_width i"
    by (simp add: new_rgba8_def ArchiveCleaner_new_def IMAGE_SIZE_def)
  show ?thesis using narrow_pages_not_rewritten [OF h] .
qed

text \<open>
  C7 (functional): the spec's second scenario. Pages 700x2200 and 700x2300: the first is a
  strip (2200 \<ge> 3 * 700) higher than 1024, so the archive is rewritten as a strip; the
  canvas is 700x4500; it is cut into 5 bands of width 700 and heights 1024, 1024, 1024,
  1024, 404; the entries are \<open>1.webp\<close> to \<open>5.webp\<close>. Pixels and resampler are
  arbitrary.
\<close>

theorem scenario2_strip_bands:
  assumes "resampler_ok r"
  shows "should_write_archive (ArchiveCleaner_new p)
           [new_rgba8 700 2200\<lparr>img_pixels := p1\<rparr>, new_rgba8 700 2300\<lparr>img_pixels := p2\<rparr>] 5
         = (True, (ArchiveCleaner_new p)\<lparr>archive_type := Manhwa\<rparr>)
     \<and> (\<exists>canvas. combine_images r
              [new_rgba8 700 2200\<lparr>img_pixels := p1\<rparr>, new_rgba8 700 2300\<lparr>img_pixels := p2\<rparr>] = Ok canvas
           \<and> img_width canvas = 700 \<and> img_height canvas = 4500
           \<and> unat (num_slices (img_height canvas) 1024) = 5
           \<and> (\<forall>k < 5. img_width (band canvas 1024 (of_nat k)) = 700
                    \<and> unat (img_height (band canvas 1024 (of_nat k))) = [1024, 1024, 1024, 1024, 404] ! k))
     \<and> map entry_name (strip_entries r enc (ArchiveCleaner_new p)
           [new_rgba8 700 2200\<lparr>img_pixels := p1\<rparr>, new_rgba8 700 2300\<lparr>img_pixels := p2\<rparr>])
         = [''1.webp'', ''2.webp'', ''3.webp'', ''4.webp'', ''5.webp'']"
proof -
  let ?imgs = "[new_rgba8 700 2200\<lparr>img_pixels := p1\<rparr>, new_rgba8 700 2300\<lparr>img_pixels := p2\<rparr>]"
  let ?canvas = "stacked_canvas r ?imgs"
  have sw: "should_write_archive (ArchiveCleaner_new p) ?imgs 5
            = (True, (ArchiveCleaner_new p)\<lparr>archive_type := Manhwa\<rparr>)"
    by (simp add: should_write_archive_def ArchiveCleaner_new_def IMAGE_SIZE_def new_rgba8_def
                  image_meets_criteria_def shape_of_def)
  have hs: "heights_sum ?imgs < 2 ^ 32" by (simp add: new_rgba8_def)
  have cb: "combine_images r ?imgs = Ok ?canvas" using assms hs by (rule combine_images_ok)
  have wh: "img_width ?canvas = 700" "img_height ?canvas = 4500"
    by (simp_all add: stacked_canvas_def max_width_def total_height_def new_rgba8_def)
  have fit: "slices_fit (img_height ?canvas) 1024" by (simp add: wh slices_fit_def)
  have n: "unat (num_slices (img_height ?canvas) 1024) = 5"
    using fit by (simp add: unat_num_slices wh)
  have bands: "img_width (band ?canvas 1024 (of_nat k)) = 700
               \<and> unat (img_height (band ?canvas 1024 (of_nat k))) = [1024, 1024, 1024, 1024, 404] ! k"
    if "k < 5" for k
  proof -
    have k: "k < unat (num_slices (img_height ?canvas) 1024)" using that n by simp
    have "k = 0 \<or> k = 1 \<or> k = 2 \<or> k = 3 \<or> k = 4" using that by linarith
    then show ?thesis
      using band_dims [OF fit k] wh by auto
  qed
  have nm: "map entry_name (strip_entries r enc (ArchiveCleaner_new p) ?imgs)
            = [''1.webp'', ''2.webp'', ''3.webp'', ''4.webp'', ''5.webp'']"
  proof -
    have "unat (num_slices (total_height ?imgs) (height (min_image_size (ArchiveCleaner_new p)))) = 5"
      using n wh by (simp add: stacked_canvas_def ArchiveCleaner_new_def IMAGE_SIZE_def)
    moreover have "[Suc 0..<6] = [1, 2, 3, 4, 5]" by (simp add: upt_conv_Cons)
    ultimately show ?thesis
      by (simp add: strip_entries_names webp_name_def names_simps)
  qed
  show ?thesis using sw cb wh n bands nm by blast
qed

theorem scenario2_strip_bands_witness:
  "resampler_ok nearest_resize
   \<and> should_write_archive (ArchiveCleaner_new [''a.cbz''])
           [new_rgba8 700 2200, new_rgba8 700 2300] 5
         = (True, (ArchiveCleaner_new [''a.cbz''])\<lparr>archive_type := Manhwa\<rparr>)"
proof -
  have "should_write_archive (ArchiveCleaner_new [''a.cbz''])
           [new_rgba8 700 2200\<lparr>img_pixels := img_pixels (new_rgba8 700 2200)\<rparr>,
            new_rgba8 700 2300\<lparr>img_pixels := img_pixels (new_rgba8 700 2300)\<rparr>] 5
         = (True, (ArchiveCleaner_new [''a.cbz''])\<lparr>archive_type := Manhwa\<rparr>)"
    using scenario2_strip_bands [OF nearest_resize_ok] by blast
  then show ?thesis using nearest_resize_ok by simp
qed

text \<open>
  C9 (safety): the strip pass is idempotent on its own output. Every band it cuts from a
  canvas is at most \<open>min_image_size.height\<close> rows high, so a scan of the rewritten
  archive's pages finds no image that meets the criteria and the archive is not rewritten
  a second time.
\<close>

theorem strip_output_not_rewritten:
  assumes "slices_fit (img_height canvas) (height (min_image_size c))"
  shows "\<not> fst (should_write_archive c
            (map (\<lambda>k. band canvas (height (min_image_size c)) (of_nat k))
                 [0..<unat (num_slices (img_height canvas) (height (min_image_size c)))]) m)"
proof (rule should_write_archive_height, intro ballI)
  fix i
  let ?sh = "height (min_image_size c)"
  assume "i \<in> set (map (\<lambda>k. band canvas ?sh (of_nat k))
                       [0..<unat (num_slices (img_height canvas) ?sh)])"
  then obtain k where k: "k < unat (num_slices (img_height canvas) ?sh)"
    and i: "i = band canvas ?sh (of_nat k)" by auto
  have "unat (img_height i) \<le> unat ?sh"
    using band_dims(2) [OF assms k] i by simp
  then show "img_height i \<le> ?sh" by (simp add: word_le_nat_alt)
qed

theorem strip_output_not_rewritten_witness:
  "slices_fit (img_height (new_rgba8 700 4500)) (height (min_image_size (ArchiveCleaner_new [''a.cbz''])))
   \<and> \<not> fst (should_write_archive (ArchiveCleaner_new [''a.cbz''])
            (map (\<lambda>k. band (new_rgba8 700 4500) (height (min_image_size (ArchiveCleaner_new [''a.cbz'']))) (of_nat k))
                 [0..<unat (num_slices (img_height (new_rgba8 700 4500))
                                       (height (min_image_size (ArchiveCleaner_new [''a.cbz'']))))]) 5)"
proof -
  have h: "slices_fit (img_height (new_rgba8 700 4500)) (height (min_image_size (ArchiveCleaner_new [''a.cbz''])))"
    by (simp add: slices_fit_def new_rgba8_def ArchiveCleaner_new_def IMAGE_SIZE_def)
  show ?thesis using h strip_output_not_rewritten [OF h] by blast
qed

text \<open>
  C10 (safety): an original whose extension is \<open>zip\<close> is never replaced by the strip
  pass: the pass writes \<open><name>.cbz\<close> beside it, and whatever happens the original keeps
  both its name and its contents.
\<close>

theorem zip_original_kept:
  assumes "extract_file_info (archive_path c) = Ok (name, dir_path)"
    and "ends_with (last (archive_path c)) ''.zip''"
    and "fs_dir s (archive_path c) = Some i0" and "i0 < fs_next s"
    and "fs_dir s (temp_archive_path name dir_path) \<noteq> Some i0"
    and "process_manhwa_images resize enc c images s = (r, s')"
  shows "fs_dir s' (archive_path c) = Some i0 \<and> fs_inode s' i0 = fs_inode s i0"
proof -
  have "final_archive_path name dir_path \<noteq> archive_path c"
    using assms(2) final_is_original_iff [OF assms(1)] by (auto simp: ends_with_def)
  then show ?thesis
    using manhwa_keeps_original [OF assms(1,3-6)] by blast
qed

theorem zip_original_kept_witness:
  "extract_file_info [''d'', ''a.zip''] = Ok (''a'', [''d''])
   \<and> ends_with (last [''d'', ''a.zip'']) ''.zip''
   \<and> fs_dir (snd (process_manhwa_images nearest_resize (\<lambda>b w h. Inr b)
                (ArchiveCleaner_new [''d'', ''a.zip'']) [new_rgba8 2 3000]
                \<lparr>fs_dir = [[''d'', ''a.zip''] \<mapsto> 0], fs_inode = [0 \<mapsto> ZipFile [] True],
                 fs_next = 1, fs_fails = (\<lambda>_. False)\<rparr>)) [''d'', ''a.zip''] = Some 0
   \<and> fs_inode (snd (process_manhwa_images nearest_resize (\<lambda>b w h. Inr b)
                (ArchiveCleaner_new [''d'', ''a.zip'']) [new_rgba8 2 3000]
                \<lparr>fs_dir = [[''d'', ''a.zip''] \<mapsto> 0], fs_inode = [0 \<mapsto> ZipFile [] True],
                 fs_next = 1, fs_fails = (\<lambda>_. False)\<rparr>)) 0 = Some (ZipFile [] True)"
proof -
  let ?c = "ArchiveCleaner_new [''d'', ''a.zip'']"
  let ?s = "\<lparr>fs_dir = [[''d'', ''a.zip''] \<mapsto> 0], fs_inode = [0 \<mapsto> ZipFile [] True],
             fs_next = 1, fs_fails = (\<lambda>_. False)\<rparr>"
  have h1: "extract_file_info (archive_path ?c) = Ok (''a'', [''d''])"
    by (simp add: ArchiveCleaner_new_def extract_file_info_def path_file_name_def
                  path_parent_def rsplit_once_def)
  have h2: "ends_with (last (archive_path ?c)) ''.zip''"
    by (simp add: ArchiveCleaner_new_def ends_with_def)
  have h3: "fs_dir ?s (archive_path ?c) = Some 0" by (simp add: ArchiveCleaner_new_def)
  have h4: "(0::nat) < fs_next ?s" by simp
  have h5: "fs_dir ?s (temp_archive_path ''a'' [''d'']) \<noteq> Some 0"
    by (simp add: temp_archive_path_def)
  obtain r s' where run: "process_manhwa_images nearest_resize (\<lambda>b w h. Inr b) ?c [new_rgba8 2 3000] ?s = (r, s')"
    by fastforce
  have "fs_dir s' (archive_path ?c) = Some 0 \<and> fs_inode s' 0 = fs_inode ?s 0"
    using zip_original_kept [OF h1 h2 h3 h4 h5 run] .
  then show ?thesis
    using h1 h2 run by (simp add: ArchiveCleaner_new_def)
qed

end
